theory Spec2Isabelle
  imports Main "HOL-Library.Sublist" "HOL-Library.Multiset"
begin

chapter \<open>Model of the catalog front-end\<close>

text \<open>
  The repository is a React/TypeScript single-page application over a hosted backend that is
  reached through a client SDK. Asynchronous functions are modelled as functions from the
  answers of the SDK (one answer per call site) to the value the promise resolves to, together
  with the list of effects the function performed, in program order. A rejected promise and an
  \<open>error\<close> field of an SDK answer are values; \<open>try/catch\<close> is a case distinction.
  Console logging is not modelled.
\<close>

section \<open>JavaScript values, SDK answers and effects\<close>

text \<open>
  A thrown or returned error, identified by its message: \<open>JsError\<close> is an instance of
  \<open>Error\<close> (an \<open>AuthError\<close>, or an \<open>Error\<close> the code itself throws), \<open>ErrorLike\<close> an
  object with a message that is not such an instance.
\<close>

datatype js_error = JsError string | ErrorLike string

text \<open>The outcome of \<open>await\<close> on a promise.\<close>

datatype 'a promise = Rejected js_error | Fulfilled 'a

text \<open>The JSON values that occur in query filters and payloads.\<close>

datatype json = JNull | JString string | JNumber int | JBool bool

text \<open>
  A payload object (\<open>{ name: ..., parent_id: ... }\<close>) is a list of key/value pairs in
  insertion order. \<open>obj_set\<close> is the property assignment of an object literal with a spread:
  an existing key keeps its position and takes the new value, a new key is appended.
\<close>

type_synonym obj = "(string \<times> json) list"

fun obj_set :: "string \<Rightarrow> json \<Rightarrow> obj \<Rightarrow> obj" where
  "obj_set k v [] = [(k, v)]"
| "obj_set k v ((k', v') # kvs) = (if k' = k then (k, v) # kvs else (k', v') # obj_set k v kvs)"

text \<open>The query builder calls of the SDK, as the request they add up to.\<close>

datatype filter = Eq string json | Neq string json

datatype query =
    Select string "filter list" bool
  | SelectCount string "filter list"
  | Insert string obj
  | Update string obj "filter list" bool
  | Delete string "filter list"

text \<open>
  \<open>Select t fs single\<close> is \<open>from(t).select('*')\<close> with the filters \<open>fs\<close> and, when
  \<open>single\<close>, a final \<open>.single()\<close>; \<open>SelectCount t fs\<close> is
  \<open>select('*', { count: 'exact', head: true })\<close>; \<open>Insert t row\<close> is
  \<open>insert(row).select().single()\<close>; \<open>Update t values fs returning\<close> is \<open>update(values)\<close>
  with the filters, followed by \<open>.select().single()\<close> when \<open>returning\<close>.
\<close>

fun filters :: "query \<Rightarrow> filter list" where
  "filters (Select t fs s) = fs"
| "filters (SelectCount t fs) = fs"
| "filters (Insert t row) = []"
| "filters (Update t vs fs r) = fs"
| "filters (Delete t fs) = fs"

text \<open>Everything a modelled function does to the world outside its own state.\<close>

datatype effect =
    AuthGetSession
  | AuthRefreshSession
  | AuthGetUser
  | Query query
  | Navigate string bool
  | Confirm
  | SetTimeout nat nat
  | ClearTimeout nat
  | StorageUpload string string "string option"
  | StorageGetPublicUrl string string
  | StorageRemove string "string list"
  | Fetch string
  | ReadBlob string
  | ReadFile string
  | CallOnUpload




section \<open>Numbers\<close>

text \<open>
  A JavaScript number is an IEEE 754 double. The numbers of this model are the integer-valued
  ones, Unix times in seconds and in milliseconds and the threshold in seconds: an \<open>int\<close>
  stands for the double of that value. The result of an arithmetic operation is the exact result
  rounded to the nearest double, a tie going to the even significand of 53 bits, and an infinity
  from \<open>2 ^ 1024 - 2 ^ 970\<close> on.
\<close>

datatype number = Num int | PosInfinity | NegInfinity

fun bitLength :: "nat \<Rightarrow> nat" where
  "bitLength n = (if n = 0 then 0 else Suc (bitLength (n div 2)))"

declare bitLength.simps [simp del]

text \<open>The multiple of \<open>q\<close> nearest to \<open>m\<close>, the even multiple on a tie.\<close>

definition roundTiesToEven :: "nat \<Rightarrow> nat \<Rightarrow> nat" where
  "roundTiesToEven q m =
     (let d = m div q; r = m mod q in
      if 2 * r < q \<or> (2 * r = q \<and> even d) then d * q else (d + 1) * q)"

definition toDouble :: "int \<Rightarrow> number" where
  "toDouble x =
     (let m = nat \<bar>x\<bar>; r = roundTiesToEven (2 ^ (bitLength m - 53)) m in
      if 2 ^ 1024 \<le> r then (if x < 0 then NegInfinity else PosInfinity)
      else Num (if x < 0 then - int r else int r))"

text \<open>\<open>a * b\<close>, \<open>a + y\<close> and \<open>x < y\<close> on numbers, for finite \<open>a\<close> and \<open>b\<close>.\<close>

definition js_times :: "int \<Rightarrow> int \<Rightarrow> number" where
  "js_times a b = toDouble (a * b)"

fun js_plus :: "int \<Rightarrow> number \<Rightarrow> number" where
  "js_plus a (Num b) = toDouble (a + b)"
| "js_plus a PosInfinity = PosInfinity"
| "js_plus a NegInfinity = NegInfinity"

fun js_less :: "number \<Rightarrow> number \<Rightarrow> bool" where
  "js_less (Num a) (Num b) = (a < b)"
| "js_less (Num a) PosInfinity = True"
| "js_less NegInfinity (Num b) = True"
| "js_less NegInfinity PosInfinity = True"
| "js_less x y = False"

text \<open>
  \<open>Number.isSafeInteger\<close>: the integers up to \<open>Number.MAX_SAFE_INTEGER = 2 ^ 53 - 1\<close> in
  magnitude, on which the arithmetic of doubles is exact.
\<close>

definition isSafeInteger :: "int \<Rightarrow> bool" where
  "isSafeInteger x = (\<bar>x\<bar> \<le> 2 ^ 53 - 1)"

section \<open>Authentication context (src/context/AuthContext.tsx)\<close>

record User =
  id_user :: string
  email :: string
  email_confirmed_at :: "string option"

text \<open>
  The SDK's \<open>Session\<close>: \<open>expires_at?: number\<close> is a Unix time in seconds, absent when
  the SDK did not set it.
\<close>

record Session =
  access_token :: string
  expires_at :: "int option"
  user :: User

text \<open>An answer \<open>{ data: { session }, error }\<close> of \<open>supabase.auth\<close>.\<close>

datatype auth_answer = AuthAnswer "Session option" "js_error option"

text \<open>
  One scenario of the world around \<open>getSession\<close>: what each SDK call answers, the value of
  \<open>Date.now()\<close> in milliseconds, and the provider's \<open>refreshTokenThreshold\<close> in seconds
  (300 when the property is omitted).
\<close>

record auth_env =
  sdk_getSession :: "auth_answer promise"
  sdk_refreshSession :: "auth_answer promise"
  now :: int
  refreshTokenThreshold :: int

definition default_refreshTokenThreshold :: int where
  "default_refreshTokenThreshold = 300"

text \<open>\<open>const { data, error } = await call; if (error) throw error; session = data.session\<close>\<close>

fun session_or_throw :: "auth_answer promise \<Rightarrow> js_error + Session option" where
  "session_or_throw (Rejected e) = Inl e"
| "session_or_throw (Fulfilled (AuthAnswer s (Some e))) = Inl e"
| "session_or_throw (Fulfilled (AuthAnswer s None)) = Inr s"

text \<open>
  The guard of the proactive refresh,
  \<open>session?.expires_at && session.expires_at * 1000 < Date.now() + refreshTokenThreshold * 1000\<close>.
  The first conjunct is JavaScript truthiness: it fails for a null session, for an absent
  \<open>expires_at\<close> and for \<open>expires_at = 0\<close>. The second is a comparison of doubles, each
  product and the sum rounded.
\<close>

definition aboutToExpire :: "auth_env \<Rightarrow> Session option \<Rightarrow> bool" where
  "aboutToExpire env session =
     (case session of
        None \<Rightarrow> False
      | Some s \<Rightarrow>
          (case expires_at s of
             None \<Rightarrow> False
           | Some e \<Rightarrow>
               e \<noteq> 0 \<and>
               js_less (js_times e 1000)
                 (js_plus (now env) (js_times (refreshTokenThreshold env) 1000))))"

text \<open>\<open>getSession(forceRefresh)\<close>; the \<open>catch\<close> turns every thrown error into \<open>null\<close>.\<close>

definition getSession :: "auth_env \<Rightarrow> bool \<Rightarrow> Session option \<times> effect list" where
  "getSession env forceRefresh =
     (if forceRefresh then
        (case session_or_throw (sdk_refreshSession env) of
           Inl e \<Rightarrow> (None, [AuthRefreshSession])
         | Inr session \<Rightarrow> (session, [AuthRefreshSession]))
      else
        (case session_or_throw (sdk_getSession env) of
           Inl e \<Rightarrow> (None, [AuthGetSession])
         | Inr session \<Rightarrow>
             if aboutToExpire env session then
               (case session_or_throw (sdk_refreshSession env) of
                  Inl e \<Rightarrow> (None, [AuthGetSession, AuthRefreshSession])
                | Inr refreshed \<Rightarrow> (refreshed, [AuthGetSession, AuthRefreshSession]))
             else (session, [AuthGetSession])))"

text \<open>
  The initial content of \<open>getSessionRef\<close>, \<open>() => Promise.resolve(null)\<close>, which an effect
  replaces by \<open>getSession\<close> after the first render.
\<close>

definition getSessionRef_initial :: "bool \<Rightarrow> Session option \<times> effect list" where
  "getSessionRef_initial forceRefresh = (None, [])"

text \<open>The provider's \<open>AuthResponse\<close> for a session.\<close>

record AuthResponse =
  error :: "js_error option"
  user_resp :: "User option"
  session :: "Session option"
  data :: "Session option"

text \<open>
  \<open>refreshSession()\<close>, on the current content of \<open>getSessionRef\<close>. The reference is typed
  as a function; the model keeps the source's test for an empty reference, whose thrown error
  the \<open>catch\<close> returns in the \<open>error\<close> field.
\<close>

definition refreshSession ::
  "(bool \<Rightarrow> Session option \<times> effect list) option \<Rightarrow> AuthResponse \<times> effect list" where
  "refreshSession getSessionRef_current =
     (case getSessionRef_current of
        None \<Rightarrow>
          (\<lparr>error = Some (JsError ''getSession is not available''), user_resp = None,
            session = None, data = None\<rparr>, [])
      | Some f \<Rightarrow>
          (case f True of
             (s, effs) \<Rightarrow>
               (\<lparr>error = None, user_resp = map_option user s, session = s, data = s\<rparr>, effs)))"

subsection \<open>Redirect policy\<close>




record auth_state =
  current_user :: "User option"
  loading :: bool








subsection \<open>Concrete scenarios\<close>

definition alice :: User where
  "alice = \<lparr>id_user = ''u-alice'', email = ''alice@example.org'', email_confirmed_at = None\<rparr>"

text \<open>A session whose \<open>expires_at\<close> is the number 0.\<close>

definition session_epoch :: Session where
  "session_epoch = \<lparr>access_token = ''t0'', expires_at = Some 0, user = alice\<rparr>"

text \<open>A session that expires 100 seconds after \<open>now = 1700000000000\<close> ms.\<close>

definition session_expiring :: Session where
  "session_expiring = \<lparr>access_token = ''t1'', expires_at = Some 1700000100, user = alice\<rparr>"

definition session_fresh :: Session where
  "session_fresh = \<lparr>access_token = ''t2'', expires_at = Some 1700003600, user = alice\<rparr>"

definition env_epoch :: auth_env where
  "env_epoch =
     \<lparr>sdk_getSession = Fulfilled (AuthAnswer (Some session_epoch) None),
      sdk_refreshSession = Fulfilled (AuthAnswer (Some session_fresh) None),
      now = 1700000000000, refreshTokenThreshold = default_refreshTokenThreshold\<rparr>"

definition env_expiring :: auth_env where
  "env_expiring =
     \<lparr>sdk_getSession = Fulfilled (AuthAnswer (Some session_expiring) None),
      sdk_refreshSession = Fulfilled (AuthAnswer (Some session_fresh) None),
      now = 1700000000000, refreshTokenThreshold = default_refreshTokenThreshold\<rparr>"

text \<open>
  A session that expires far beyond the present, under a threshold of 9007199254742 seconds:
  the sum \<open>Date.now() + refreshTokenThreshold * 1000\<close> is 9008899254742001 and rounds to
  9008899254742000.
\<close>

definition session_far :: Session where
  "session_far = \<lparr>access_token = ''t3'', expires_at = Some 9008899254742, user = alice\<rparr>"

definition env_rounding :: auth_env where
  "env_rounding =
     \<lparr>sdk_getSession = Fulfilled (AuthAnswer (Some session_far) None),
      sdk_refreshSession = Fulfilled (AuthAnswer (Some session_fresh) None),
      now = 1700000000001, refreshTokenThreshold = 9007199254742\<rparr>"

definition env_refresh_fails :: auth_env where
  "env_refresh_fails =
     \<lparr>sdk_getSession = Fulfilled (AuthAnswer (Some session_expiring) None),
      sdk_refreshSession = Fulfilled (AuthAnswer None (Some (JsError ''Invalid Refresh Token''))),
      now = 1700000000000, refreshTokenThreshold = default_refreshTokenThreshold\<rparr>"







section \<open>Table access (src/lib/supabase/utils.ts, hook useTable)\<close>

text \<open>
  An answer \<open>{ data, error }\<close> of a query; \<open>'a\<close> is the type the call site gives to
  \<open>data\<close> (\<open>None\<close> is \<open>null\<close>). An answer \<open>{ count, error }\<close> of a counting query.
\<close>

datatype 'a pg_answer = PgAnswer 'a "js_error option"

datatype count_answer = CountAnswer "nat option" "js_error option"

text \<open>\<open>const { data, error } = await query; if (error) throw error;\<close>\<close>

fun data_or_throw :: "'a pg_answer promise \<Rightarrow> js_error + 'a" where
  "data_or_throw (Rejected e) = Inl e"
| "data_or_throw (Fulfilled (PgAnswer d (Some e))) = Inl e"
| "data_or_throw (Fulfilled (PgAnswer d None)) = Inr d"

fun count_or_throw :: "count_answer promise \<Rightarrow> js_error + nat option" where
  "count_or_throw (Rejected e) = Inl e"
| "count_or_throw (Fulfilled (CountAnswer c (Some e))) = Inl e"
| "count_or_throw (Fulfilled (CountAnswer c None)) = Inr c"

text \<open>The hook's \<open>loading\<close> and \<open>error\<close> state.\<close>

record hook_state =
  hook_loading :: bool
  hook_error :: "js_error option"

text \<open>
  Each operation takes the answer of the backend to the one query it issues, the hook's table
  name, the result of \<open>useUser()\<close> and the hook state, and returns its result, the hook state
  after \<open>finally\<close>, and the queries it issued.
\<close>

definition fetchAll ::
  "'r list option pg_answer promise \<Rightarrow> string \<Rightarrow> User option \<Rightarrow> hook_state
     \<Rightarrow> 'r list option \<times> hook_state \<times> effect list" where
  "fetchAll answer tableName usr st =
     (case usr of
        None \<Rightarrow> (None, st, [])
      | Some u \<Rightarrow>
          (let q = Select tableName [Eq ''user_id'' (JString (id_user u))] False in
           case data_or_throw answer of
             Inl e \<Rightarrow> (None, \<lparr>hook_loading = False, hook_error = Some e\<rparr>, [Query q])
           | Inr d \<Rightarrow> (d, \<lparr>hook_loading = False, hook_error = None\<rparr>, [Query q])))"

definition fetchById ::
  "'r option pg_answer promise \<Rightarrow> string \<Rightarrow> User option \<Rightarrow> string \<Rightarrow> hook_state
     \<Rightarrow> 'r option \<times> hook_state \<times> effect list" where
  "fetchById answer tableName usr ident st =
     (case usr of
        None \<Rightarrow> (None, st, [])
      | Some u \<Rightarrow>
          (let q = Select tableName
                     [Eq ''id'' (JString ident), Eq ''user_id'' (JString (id_user u))] True in
           case data_or_throw answer of
             Inl e \<Rightarrow> (None, \<lparr>hook_loading = False, hook_error = Some e\<rparr>, [Query q])
           | Inr d \<Rightarrow> (d, \<lparr>hook_loading = False, hook_error = None\<rparr>, [Query q])))"

text \<open>\<open>insert({ ...values, user_id: user.id })\<close>\<close>

definition insert_row ::
  "'r option pg_answer promise \<Rightarrow> string \<Rightarrow> User option \<Rightarrow> obj \<Rightarrow> hook_state
     \<Rightarrow> 'r option \<times> hook_state \<times> effect list" where
  "insert_row answer tableName usr vals st =
     (case usr of
        None \<Rightarrow> (None, st, [])
      | Some u \<Rightarrow>
          (let q = Insert tableName (obj_set ''user_id'' (JString (id_user u)) vals) in
           case data_or_throw answer of
             Inl e \<Rightarrow> (None, \<lparr>hook_loading = False, hook_error = Some e\<rparr>, [Query q])
           | Inr d \<Rightarrow> (d, \<lparr>hook_loading = False, hook_error = None\<rparr>, [Query q])))"

definition update_row ::
  "'r option pg_answer promise \<Rightarrow> string \<Rightarrow> User option \<Rightarrow> string \<Rightarrow> obj \<Rightarrow> hook_state
     \<Rightarrow> 'r option \<times> hook_state \<times> effect list" where
  "update_row answer tableName usr ident vals st =
     (case usr of
        None \<Rightarrow> (None, st, [])
      | Some u \<Rightarrow>
          (let q = Update tableName vals
                     [Eq ''id'' (JString ident), Eq ''user_id'' (JString (id_user u))] True in
           case data_or_throw answer of
             Inl e \<Rightarrow> (None, \<lparr>hook_loading = False, hook_error = Some e\<rparr>, [Query q])
           | Inr d \<Rightarrow> (d, \<lparr>hook_loading = False, hook_error = None\<rparr>, [Query q])))"

definition remove_row ::
  "unit pg_answer promise \<Rightarrow> string \<Rightarrow> User option \<Rightarrow> string \<Rightarrow> hook_state
     \<Rightarrow> bool \<times> hook_state \<times> effect list" where
  "remove_row answer tableName usr ident st =
     (case usr of
        None \<Rightarrow> (False, st, [])
      | Some u \<Rightarrow>
          (let q = Delete tableName
                     [Eq ''id'' (JString ident), Eq ''user_id'' (JString (id_user u))] in
           case data_or_throw answer of
             Inl e \<Rightarrow> (False, \<lparr>hook_loading = False, hook_error = Some e\<rparr>, [Query q])
           | Inr d \<Rightarrow> (True, \<lparr>hook_loading = False, hook_error = None\<rparr>, [Query q])))"

text \<open>A query is scoped to a user when it filters on that user's id.\<close>

definition scopedTo :: "string \<Rightarrow> effect \<Rightarrow> bool" where
  "scopedTo uid e =
     (case e of Query q \<Rightarrow> Eq ''user_id'' (JString uid) \<in> set (filters q) | _ \<Rightarrow> False)"

text \<open>An insertion is stamped with a user when the inserted row's \<open>user_id\<close> is that user's id.\<close>

definition stampedWith :: "string \<Rightarrow> effect \<Rightarrow> bool" where
  "stampedWith uid e =
     (case e of Query (Insert t row) \<Rightarrow> map_of row ''user_id'' = Some (JString uid) | _ \<Rightarrow> False)"

fun isMutation :: "effect \<Rightarrow> bool" where
  "isMutation (Query (Insert t row)) = True"
| "isMutation (Query (Update t vs fs r)) = True"
| "isMutation (Query (Delete t fs)) = True"
| "isMutation _ = False"

section \<open>Categories (src/pages/Categories.tsx, src/pages/EditCategory.tsx)\<close>

record Category =
  id_cat :: string
  name :: string
  parent_id :: "string option"
  user_id :: string
  created_at :: string
  updated_at :: string

subsection \<open>The category tree (src/pages/Categories.tsx, buildCategoryTree)\<close>

text \<open>
  An object that \<open>buildCategoryTree\<close> creates, \<open>{ ...category, children: [] }\<close>. The objects
  are shared: the same object is the value of its key in the \<open>Map\<close> and an element of its
  parent's \<open>children\<close> array or of \<open>result\<close>. There is one object per key, so a reference to
  an object is modelled by the key, and the \<open>Map\<close> is the store of the objects.
\<close>

record tree_node =
  node_category :: Category
  children :: "string list"

text \<open>
  A \<open>Map<string, Category>\<close>: keys in insertion order. \<open>map.set\<close> on a key that is present
  replaces the value and keeps the key's position.
\<close>

type_synonym category_map = "(string \<times> tree_node) list"

fun map_set :: "string \<Rightarrow> tree_node \<Rightarrow> category_map \<Rightarrow> category_map" where
  "map_set k v [] = [(k, v)]"
| "map_set k v ((k', v') # m) = (if k' = k then (k, v) # m else (k', v') # map_set k v m)"

definition map_has :: "category_map \<Rightarrow> string \<Rightarrow> bool" where
  "map_has m k = (k \<in> set (map fst m))"

text \<open>First pass: \<open>categories.forEach(category => map.set(category.id, {...}))\<close>.\<close>

definition first_pass :: "Category list \<Rightarrow> category_map" where
  "first_pass cats =
     foldl (\<lambda>m c. map_set (id_cat c) \<lparr>node_category = c, children = []\<rparr> m) [] cats"

text \<open>\<open>parent.children.push(category)\<close>, on the object stored under the key \<open>p\<close>.\<close>

definition push_child :: "string \<Rightarrow> string \<Rightarrow> category_map \<Rightarrow> category_map" where
  "push_child p k m =
     map (\<lambda>(k', n). if k' = p then (k', n\<lparr>children := children n @ [k]\<rparr>) else (k', n)) m"

text \<open>
  One step of the second pass, the callback of \<open>map.forEach\<close> on the entry with key \<open>k\<close>:
  \<open>if (category.parent_id && map.has(category.parent_id))\<close> the object is pushed to its
  parent's children, otherwise to \<open>result\<close>. The first conjunct is truthiness: it fails for
  \<open>null\<close> and for the empty string. The callback changes only \<open>children\<close> arrays, so the
  category of an entry can be read from the map as it was before the pass.
\<close>

definition attach ::
  "category_map \<times> string list \<Rightarrow> string \<times> tree_node \<Rightarrow> category_map \<times> string list" where
  "attach acc entry =
     (case acc of (m, result) \<Rightarrow>
      case entry of (k, n) \<Rightarrow>
        (case parent_id (node_category n) of
           None \<Rightarrow> (m, result @ [k])
         | Some p \<Rightarrow>
             if p \<noteq> [] \<and> map_has m p then (push_child p k m, result)
             else (m, result @ [k])))"

text \<open>
  \<open>buildCategoryTree(categories)\<close>: the returned array \<open>result\<close>, as references, and the
  objects they refer to.
\<close>

definition buildCategoryTree :: "Category list \<Rightarrow> string list \<times> category_map" where
  "buildCategoryTree cats =
     (let m0 = first_pass cats in
      case foldl attach (m0, []) m0 of (m, result) \<Rightarrow> (result, m))"

text \<open>
  The returned forest as a value: the tree below a reference, read through the \<open>children\<close>
  arrays down to depth \<open>d\<close>. \<open>None\<close> means that the objects go deeper than \<open>d\<close> (or that
  a reference dangles, which does not happen).
\<close>

datatype category_tree = Node Category "category_tree list"

fun unfold_node :: "nat \<Rightarrow> category_map \<Rightarrow> string \<Rightarrow> category_tree option" where
  "unfold_node 0 m k = None"
| "unfold_node (Suc d) m k =
     (case map_of m k of
        None \<Rightarrow> None
      | Some n \<Rightarrow> map_option (Node (node_category n)) (those (map (unfold_node d m) (children n))))"

definition forest :: "nat \<Rightarrow> string list \<times> category_map \<Rightarrow> category_tree list option" where
  "forest d built = (case built of (result, m) \<Rightarrow> those (map (unfold_node d m) result))"

text \<open>The categories of a tree, parent first.\<close>

fun flatten :: "category_tree \<Rightarrow> Category list" where
  "flatten (Node c ts) = c # concat (map flatten ts)"

text \<open>
  A category is attached to a parent when its \<open>parent_id\<close> is a non-empty string and the id
  of a category of the input.
\<close>

definition attached :: "Category list \<Rightarrow> Category \<Rightarrow> bool" where
  "attached cats c =
     (case parent_id c of None \<Rightarrow> False | Some p \<Rightarrow> p \<noteq> [] \<and> p \<in> set (map id_cat cats))"

definition rootsOf :: "Category list \<Rightarrow> Category list" where
  "rootsOf cats = filter (\<lambda>c. \<not> attached cats c) cats"

definition childrenOf :: "Category list \<Rightarrow> Category \<Rightarrow> Category list" where
  "childrenOf cats p = filter (\<lambda>c. attached cats c \<and> parent_id c = Some (id_cat p)) cats"

text \<open>
  The two relations as the specification words them: the \<open>parent_id\<close> of a category
  matches the id of a category of the input, and the categories whose \<open>parent_id\<close> is the id
  of \<open>p\<close>. They differ from \<open>attached\<close> and \<open>childrenOf\<close> only where a \<open>parent_id\<close> is
  the empty string.
\<close>

definition matchesInput :: "Category list \<Rightarrow> Category \<Rightarrow> bool" where
  "matchesInput cats c =
     (case parent_id c of None \<Rightarrow> False | Some p \<Rightarrow> p \<in> set (map id_cat cats))"

definition withParent :: "Category list \<Rightarrow> Category \<Rightarrow> Category list" where
  "withParent cats p = filter (\<lambda>c. parent_id c = Some (id_cat p)) cats"

text \<open>
  Auxiliary notions for the proofs. The parent that the second pass attaches a category to,
  given the keys of the map.
\<close>

definition effective_parent :: "string set \<Rightarrow> Category \<Rightarrow> string option" where
  "effective_parent K c =
     (case parent_id c of None \<Rightarrow> None | Some p \<Rightarrow> if p \<noteq> [] \<and> p \<in> K then Some p else None)"

text \<open>The same tree grown from the input list.\<close>

fun grow :: "nat \<Rightarrow> Category list \<Rightarrow> Category \<Rightarrow> category_tree option" where
  "grow 0 cats c = None"
| "grow (Suc d) cats c = map_option (Node c) (those (map (grow d cats) (childrenOf cats c)))"

text \<open>The categories \<open>j\<close> generations below the categories \<open>xs\<close>.\<close>

fun generation :: "Category list \<Rightarrow> nat \<Rightarrow> Category list \<Rightarrow> Category list" where
  "generation cats 0 xs = xs"
| "generation cats (Suc j) xs = generation cats j (concat (map (childrenOf cats) xs))"

text \<open>A category is \<open>j\<close> parent links away from a root.\<close>

fun at_level :: "Category list \<Rightarrow> nat \<Rightarrow> Category \<Rightarrow> bool" where
  "at_level cats 0 c = (\<not> attached cats c)"
| "at_level cats (Suc j) c =
     (attached cats c \<and> list_ex (\<lambda>p. parent_id c = Some (id_cat p) \<and> at_level cats j p) cats)"

text \<open>
  Two categories of which one has the empty string as its id. The \<open>categories\<close> table
  declares \<open>id UUID PRIMARY KEY\<close>, so no stored row is like the first.
\<close>

definition cat_blank :: Category where
  "cat_blank =
     \<lparr>id_cat = [], name = ''Misc'', parent_id = None, user_id = ''u-alice'',
      created_at = ''2024-06-28T09:04:00Z'', updated_at = ''2024-06-28T09:04:00Z''\<rparr>"

definition cat_orphan :: Category where
  "cat_orphan =
     \<lparr>id_cat = ''c-orphan'', name = ''Orphan'', parent_id = Some [], user_id = ''u-alice'',
      created_at = ''2024-06-28T09:05:00Z'', updated_at = ''2024-06-28T09:05:00Z''\<rparr>"

subsection \<open>Editing a category (src/pages/EditCategory.tsx)\<close>

text \<open>An answer \<open>{ data: { user }, error }\<close> of \<open>supabase.auth.getUser()\<close>.\<close>

datatype user_answer = UserAnswer "User option" "js_error option"

fun user_or_throw :: "user_answer promise \<Rightarrow> js_error + User option" where
  "user_or_throw (Rejected e) = Inl e"
| "user_or_throw (Fulfilled (UserAnswer u (Some e))) = Inl e"
| "user_or_throw (Fulfilled (UserAnswer u None)) = Inr u"

text \<open>\<open>err instanceof Error ? err.message : fallback\<close>\<close>

fun errorMessage :: "js_error \<Rightarrow> string \<Rightarrow> string" where
  "errorMessage (JsError m) fallback = m"
| "errorMessage (ErrorLike m) fallback = fallback"

text \<open>The component state of \<open>EditCategory\<close>.\<close>

record FormData =
  form_name :: string
  form_parent_id :: string

record edit_state =
  category :: "Category option"
  categories :: "Category list"
  edit_loading :: bool
  edit_error :: string
  formData :: FormData

text \<open>
  The filter that computes \<open>validParentCategories\<close> from the categories the backend
  returned: the edited category itself and its direct children are dropped.
\<close>

definition validParentCategories :: "Category \<Rightarrow> Category list \<Rightarrow> Category list" where
  "validParentCategories categoryData allCategories =
     filter (\<lambda>cat. id_cat cat \<noteq> id_cat categoryData \<and> parent_id cat \<noteq> Some (id_cat categoryData))
       allCategories"

text \<open>\<open>parent_id: categoryData.parent_id || ''\<close>\<close>

definition parent_or_empty :: "string option \<Rightarrow> string" where
  "parent_or_empty p = (case p of None \<Rightarrow> [] | Some s \<Rightarrow> s)"

text \<open>
  \<open>fetchData()\<close> of the mount effect. \<open>ident\<close> is the route parameter \<open>id\<close>, undefined
  (\<open>None\<close>) or a string; both the undefined and the empty parameter are falsy.
\<close>

definition fetchData ::
  "string option \<Rightarrow> user_answer promise \<Rightarrow> Category option pg_answer promise
     \<Rightarrow> Category list option pg_answer promise \<Rightarrow> edit_state \<Rightarrow> edit_state \<times> effect list" where
  "fetchData ident getUser_answer category_answer all_answer st =
     (case ident of
        None \<Rightarrow> (st, [])
      | Some i \<Rightarrow>
          if i = [] then (st, [])
          else
            let fail = (\<lambda>e. st\<lparr>edit_loading := False,
                                 edit_error := errorMessage e ''Error loading category''\<rparr>);
                q1 = Select ''categories'' [Eq ''id'' (JString i)] True
            in
            (case user_or_throw getUser_answer of
               Inl e \<Rightarrow> (fail e, [AuthGetUser])
             | Inr None \<Rightarrow> (st\<lparr>edit_loading := False\<rparr>, [AuthGetUser, Navigate ''/login'' True])
             | Inr (Some u) \<Rightarrow>
                 (case data_or_throw category_answer of
                    Inl e \<Rightarrow> (fail e, [AuthGetUser, Query q1])
                  | Inr None \<Rightarrow> (fail (JsError ''Category not found''), [AuthGetUser, Query q1])
                  | Inr (Some categoryData) \<Rightarrow>
                      if user_id categoryData \<noteq> id_user u then
                        (fail (JsError ''You do not have permission to edit this category''),
                         [AuthGetUser, Query q1])
                      else
                        let q2 = Select ''categories''
                                   [Eq ''user_id'' (JString (id_user u)), Neq ''id'' (JString i)] False;
                            st1 = st\<lparr>category := Some categoryData,
                                     formData := \<lparr>form_name = name categoryData,
                                                   form_parent_id = parent_or_empty (parent_id categoryData)\<rparr>\<rparr>
                        in
                        (case data_or_throw all_answer of
                           Inl e \<Rightarrow>
                             (st1\<lparr>edit_loading := False,
                                  edit_error := errorMessage e ''Error loading category''\<rparr>,
                              [AuthGetUser, Query q1, Query q2])
                         | Inr allCategories \<Rightarrow>
                             (st1\<lparr>categories :=
                                    validParentCategories categoryData
                                      (case allCategories of None \<Rightarrow> [] | Some cs \<Rightarrow> cs),
                                  edit_loading := False\<rparr>,
                              [AuthGetUser, Query q1, Query q2])))))"

text \<open>\<open>parent_id: formData.parent_id || null\<close>\<close>

definition parent_or_null :: "string \<Rightarrow> json" where
  "parent_or_null p = (if p = [] then JNull else JString p)"

text \<open>
  \<open>handleSubmit(e)\<close>; \<open>nowIso\<close> is \<open>new Date().toISOString()\<close>. On success the component
  navigates away with \<open>loading\<close> still set.
\<close>

definition handleSubmit ::
  "string option \<Rightarrow> user_answer promise \<Rightarrow> unit pg_answer promise \<Rightarrow> string
     \<Rightarrow> edit_state \<Rightarrow> edit_state \<times> effect list" where
  "handleSubmit ident getUser_answer update_answer nowIso st =
     (case ident of
        None \<Rightarrow> (st, [])
      | Some i \<Rightarrow>
          if i = [] then (st, [])
          else
            let fail = (\<lambda>e. st\<lparr>edit_loading := False,
                                 edit_error := errorMessage e ''Error updating category''\<rparr>);
                updates = [(''name'', JString (form_name (formData st))),
                           (''parent_id'', parent_or_null (form_parent_id (formData st))),
                           (''updated_at'', JString nowIso)];
                q = Update ''categories'' updates [Eq ''id'' (JString i)] False
            in
            (case user_or_throw getUser_answer of
               Inl e \<Rightarrow> (fail e, [AuthGetUser])
             | Inr None \<Rightarrow> (fail (JsError ''User not authenticated''), [AuthGetUser])
             | Inr (Some u) \<Rightarrow>
                 (case data_or_throw update_answer of
                    Inl e \<Rightarrow> (fail e, [AuthGetUser, Query q])
                  | Inr d \<Rightarrow>
                      (st\<lparr>edit_loading := True, edit_error := []\<rparr>,
                       [AuthGetUser, Query q, Navigate ''/categories'' False]))))"

text \<open>
  The guard \<open>count && count > 0\<close> on a reported count (\<open>number | null\<close>): null and 0 are
  falsy.
\<close>

definition countPositive :: "nat option \<Rightarrow> bool" where
  "countPositive c = (case c of None \<Rightarrow> False | Some n \<Rightarrow> n \<noteq> 0 \<and> n > 0)"

text \<open>
  \<open>handleDelete()\<close>; \<open>confirmed\<close> is the answer of \<open>window.confirm\<close>, which is not asked
  when the route parameter is falsy.
\<close>

definition handleDelete ::
  "string option \<Rightarrow> bool \<Rightarrow> count_answer promise \<Rightarrow> count_answer promise
     \<Rightarrow> unit pg_answer promise \<Rightarrow> edit_state \<Rightarrow> edit_state \<times> effect list" where
  "handleDelete ident confirmed product_answer subcategory_answer delete_answer st =
     (case ident of
        None \<Rightarrow> (st, [])
      | Some i \<Rightarrow>
          if i = [] then (st, [])
          else if \<not> confirmed then (st, [Confirm])
          else
            let fail = (\<lambda>e. st\<lparr>edit_loading := False,
                                 edit_error := errorMessage e ''Error deleting category''\<rparr>);
                q1 = SelectCount ''products'' [Eq ''category_id'' (JString i)];
                q2 = SelectCount ''categories'' [Eq ''parent_id'' (JString i)];
                q3 = Delete ''categories'' [Eq ''id'' (JString i)]
            in
            (case count_or_throw product_answer of
               Inl e \<Rightarrow> (fail e, [Confirm, Query q1])
             | Inr productCount \<Rightarrow>
                 if countPositive productCount then
                   (fail (JsError ''Cannot delete category with associated products''),
                    [Confirm, Query q1])
                 else
                   (case count_or_throw subcategory_answer of
                      Inl e \<Rightarrow> (fail e, [Confirm, Query q1, Query q2])
                    | Inr subcategoryCount \<Rightarrow>
                        if countPositive subcategoryCount then
                          (fail (JsError ''Cannot delete category with subcategories''),
                           [Confirm, Query q1, Query q2])
                        else
                          (case data_or_throw delete_answer of
                             Inl e \<Rightarrow> (fail e, [Confirm, Query q1, Query q2, Query q3])
                           | Inr d \<Rightarrow>
                               (st\<lparr>edit_loading := True\<rparr>,
                                [Confirm, Query q1, Query q2, Query q3,
                                 Navigate ''/categories'' False])))))"

subsection \<open>Concrete categories\<close>

definition hook_idle :: hook_state where
  "hook_idle = \<lparr>hook_loading = False, hook_error = None\<rparr>"

definition edit_initial :: edit_state where
  "edit_initial =
     \<lparr>category = None, categories = [], edit_loading = True, edit_error = [],
      formData = \<lparr>form_name = [], form_parent_id = []\<rparr>\<rparr>"

definition cat_books :: Category where
  "cat_books =
     \<lparr>id_cat = ''c-books'', name = ''Books'', parent_id = None, user_id = ''u-alice'',
      created_at = ''2024-06-28T09:00:00Z'', updated_at = ''2024-06-28T09:00:00Z''\<rparr>"

definition cat_novels :: Category where
  "cat_novels =
     \<lparr>id_cat = ''c-novels'', name = ''Novels'', parent_id = Some ''c-books'', user_id = ''u-alice'',
      created_at = ''2024-06-28T09:01:00Z'', updated_at = ''2024-06-28T09:01:00Z''\<rparr>"

definition cat_crime :: Category where
  "cat_crime =
     \<lparr>id_cat = ''c-crime'', name = ''Crime'', parent_id = Some ''c-novels'', user_id = ''u-alice'',
      created_at = ''2024-06-28T09:02:00Z'', updated_at = ''2024-06-28T09:02:00Z''\<rparr>"

definition cat_foreign :: Category where
  "cat_foreign =
     \<lparr>id_cat = ''c-foreign'', name = ''Tools'', parent_id = None, user_id = ''u-mallory'',
      created_at = ''2024-06-28T09:03:00Z'', updated_at = ''2024-06-28T09:03:00Z''\<rparr>"

subsection \<open>The parent graph and the stored table\<close>

text \<open>\<open>handleChange(e)\<close> for the form's two fields, \<open>name\<close> and \<open>parent_id\<close>.\<close>

definition handleChange :: "string \<Rightarrow> string \<Rightarrow> edit_state \<Rightarrow> edit_state" where
  "handleChange field val st =
     st\<lparr>formData :=
          (if field = ''name'' then (formData st)\<lparr>form_name := val\<rparr>
           else if field = ''parent_id'' then (formData st)\<lparr>form_parent_id := val\<rparr>
           else formData st)\<rparr>"

text \<open>The edges of the parent graph: one from each category to the id in its \<open>parent_id\<close>.\<close>

definition parent_edges :: "Category list \<Rightarrow> (string \<times> string) set" where
  "parent_edges cats =
     set (concat (map (\<lambda>c. case parent_id c of None \<Rightarrow> [] | Some p \<Rightarrow> [(id_cat c, p)]) cats))"

text \<open>
  What the backend stores after \<open>update(values).eq('id', ident)\<close> on the \<open>categories\<close>
  table, for the columns the edit form writes: the row with that id takes the new values, and
  the trigger \<open>update_categories_updated_at\<close> (\<open>BEFORE UPDATE ... FOR EACH ROW\<close>) then
  overwrites its \<open>updated_at\<close> with \<open>NOW()\<close>, the time \<open>now_db\<close> of the statement; every
  other row is unchanged.
\<close>

fun assign :: "string \<times> json \<Rightarrow> Category \<Rightarrow> Category" where
  "assign (k, JString s) c =
     (if k = ''name'' then c\<lparr>name := s\<rparr>
      else if k = ''parent_id'' then c\<lparr>parent_id := Some s\<rparr>
      else if k = ''updated_at'' then c\<lparr>updated_at := s\<rparr>
      else c)"
| "assign (k, JNull) c = (if k = ''parent_id'' then c\<lparr>parent_id := None\<rparr> else c)"
| "assign (k, v) c = c"

fun stored_after_update :: "string \<Rightarrow> query \<Rightarrow> Category list \<Rightarrow> Category list" where
  "stored_after_update now_db (Update t vals [Eq k (JString i)] r) cats =
     (if t = ''categories'' \<and> k = ''id''
      then map (\<lambda>c. if id_cat c = i then (fold assign vals c)\<lparr>updated_at := now_db\<rparr> else c) cats
      else cats)"
| "stored_after_update now_db q cats = cats"

section \<open>Deferred calls (src/lib/utils/index.ts, debounce and throttle)\<close>










section \<open>File uploads\<close>

text \<open>
  The functions that store and remove files (src/lib/supabase.ts, src/components/ProductForm.tsx)
  and the upload button of the \<open>FileUpload\<close> component (src/components/ui/file-upload.tsx).
  A promise as the code that awaits it sees it: resolved with a value, rejected, or never
  settled.
\<close>

datatype 'a settled = Resolved 'a | Threw js_error | NeverSettles

text \<open>A \<open>File\<close>: its name and its MIME type.\<close>

record js_file =
  file_name :: string
  file_type :: string

text \<open>
  \<open>name.split('.').pop()\<close>: what follows the last dot, the whole name when it has no dot.
\<close>

definition extension :: "string \<Rightarrow> string" where
  "extension n = rev (takeWhile (\<lambda>c. c \<noteq> CHR ''.'') (rev n))"

text \<open>\<open>s || fallback\<close> on a string, and on a string that may be undefined.\<close>

definition or_default :: "string \<Rightarrow> string \<Rightarrow> string" where
  "or_default s fallback = (if s = [] then fallback else s)"


text \<open>\<open>err.message || fallback\<close>\<close>

fun message_of :: "js_error \<Rightarrow> string" where
  "message_of (JsError m) = m"
| "message_of (ErrorLike m) = m"

definition message_or :: "js_error \<Rightarrow> string \<Rightarrow> string" where
  "message_or e fallback = or_default (message_of e) fallback"

text \<open>
  An answer \<open>{ data, error }\<close> of \<open>storage.from(bucket).upload(...)\<close>, where \<open>data\<close> is
  \<open>{ path }\<close> or null, and an answer \<open>{ error }\<close> of \<open>storage.from(bucket).remove(...)\<close>.
\<close>

datatype upload_answer = UploadAnswer "string option" "js_error option"


text \<open>
  \<open>const { data, error } = await upload; if (error) throw error;\<close> followed by a use of
  \<open>data.path\<close>, which throws a \<open>TypeError\<close> on a null \<open>data\<close>.
\<close>

fun path_or_throw :: "upload_answer promise \<Rightarrow> js_error + string" where
  "path_or_throw (Rejected e) = Inl e"
| "path_or_throw (Fulfilled (UploadAnswer d (Some e))) = Inl e"
| "path_or_throw (Fulfilled (UploadAnswer (Some p) None)) = Inr p"
| "path_or_throw (Fulfilled (UploadAnswer None None)) =
     Inl (JsError ''Cannot read properties of null'')"

text \<open>
  \<open>getPublicUrl(path)\<close> computes the URL without a request; \<open>publicUrl bucket path\<close> stands
  for its result.
\<close>

type_synonym public_url = "string \<Rightarrow> string \<Rightarrow> string"

subsection \<open>src/lib/supabase.ts\<close>



subsection \<open>The product form (src/components/ProductForm.tsx)\<close>

record UploadedFile =
  uf_url :: string
  uf_path :: string
  uf_name :: "string option"
  uf_type :: "string option"

text \<open>The part of the component state that the upload functions read and write.\<close>

record product_form =
  pf_uploading :: bool
  pf_uploadProgress :: nat
  pf_error :: string
  pf_success :: string
  pf_photos :: "UploadedFile list"
  pf_files :: "UploadedFile list"
  pf_gpsrPictograms :: "UploadedFile list"
  pf_gpsrDeclaration :: "UploadedFile option"
  pf_gpsrCertificates :: "UploadedFile list"

text \<open>
  How a \<open>FileReader\<close> ends its read, with the \<open>load\<close> event or with the \<open>error\<close> event. The
  \<open>progress\<close> events before that are given by the percentages that the handler computes from
  them, \<open>Math.round((event.loaded / event.total) * 100)\<close> for each event that is
  \<open>lengthComputable\<close>; the handler stores each with \<open>setUploadProgress\<close>.
\<close>

datatype read_result = Loaded | ReadFailed js_error

definition after_progress :: "nat \<Rightarrow> nat list \<Rightarrow> nat" where
  "after_progress p percentages = foldl (\<lambda>q r. r) p percentages"

text \<open>
  The callback \<open>() => setUploadProgress(0)\<close> that the upload functions hand to
  \<open>setTimeout(..., 1000)\<close>.
\<close>

definition resetProgress :: "product_form \<Rightarrow> product_form" where
  "resetProgress st = st\<lparr>pf_uploadProgress := 0\<rparr>"

text \<open>
  \<open>handleFileChange(e)\<close>: \<open>files\<close> is \<open>e.target.files\<close>, \<open>rnd\<close> the text of
  \<open>Math.random()\<close> and \<open>nt\<close> the id that \<open>setTimeout\<close> returns. The promise that wraps the
  reader has no \<open>error\<close> handler: when the read fails it never settles and the function never
  goes on. Clearing the file input is not modelled.
\<close>

definition handleFileChange ::
  "js_file list option \<Rightarrow> string \<Rightarrow> nat list \<Rightarrow> read_result \<Rightarrow> upload_answer promise
     \<Rightarrow> public_url \<Rightarrow> nat \<Rightarrow> product_form \<Rightarrow> unit settled \<times> product_form \<times> effect list" where
  "handleFileChange files rnd percentages rd answer publicUrl nt st =
     (case files of
        None \<Rightarrow> (Resolved (), st, [])
      | Some [] \<Rightarrow> (Resolved (), st, [])
      | Some (file # others) \<Rightarrow>
          (let filePath = ''product-photos/'' @ rnd @ ''.'' @ extension (file_name file);
               st1 = st\<lparr>pf_uploading := True,
                       pf_uploadProgress := after_progress 0 percentages, pf_error := []\<rparr>;
               up = StorageUpload ''product-files'' filePath (Some (file_type file))
           in
           case rd of
             ReadFailed e \<Rightarrow> (NeverSettles, st1, [ReadFile (file_name file)])
           | Loaded \<Rightarrow>
               (case path_or_throw answer of
                  Inl e \<Rightarrow>
                    (Resolved (),
                     st1\<lparr>pf_error := message_or e ''Error uploading file'', pf_uploading := False\<rparr>,
                     [ReadFile (file_name file), up, SetTimeout nt 1000])
                | Inr p \<Rightarrow>
                    (Resolved (),
                     st1\<lparr>pf_photos := pf_photos st1 @
                            [\<lparr>uf_url = publicUrl ''product-files'' p, uf_path = p,
                              uf_name = Some (file_name file), uf_type = Some (file_type file)\<rparr>],
                          pf_success := ''Photo uploaded successfully'', pf_uploading := False\<rparr>,
                     [ReadFile (file_name file), up, StorageGetPublicUrl ''product-files'' p,
                      SetTimeout nt 1000]))))"

text \<open>
  \<open>uploadFileWithProgress(file, path)\<close>, with the upload progress before and after. It
  resolves with \<open>{ path, publicUrl }\<close>.
\<close>

definition uploadFileWithProgress ::
  "nat list \<Rightarrow> read_result \<Rightarrow> upload_answer promise \<Rightarrow> public_url \<Rightarrow> js_file \<Rightarrow> string
     \<Rightarrow> nat \<Rightarrow> (string \<times> string) settled \<times> nat \<times> effect list" where
  "uploadFileWithProgress percentages rd answer publicUrl file path progress =
     (let up = StorageUpload ''product-files'' path (Some (file_type file));
          progress1 = after_progress progress percentages
      in
      case rd of
        ReadFailed e \<Rightarrow> (Threw e, progress1, [ReadFile (file_name file)])
      | Loaded \<Rightarrow>
          (case path_or_throw answer of
             Inl e \<Rightarrow> (Threw e, progress1, [ReadFile (file_name file), up])
           | Inr p \<Rightarrow>
               (Resolved (p, publicUrl ''product-files'' p), progress1,
                [ReadFile (file_name file), up, StorageGetPublicUrl ''product-files'' p])))"

text \<open>\<open>handleDocumentUpload(e)\<close>\<close>

definition handleDocumentUpload ::
  "js_file list option \<Rightarrow> string \<Rightarrow> nat list \<Rightarrow> read_result \<Rightarrow> upload_answer promise
     \<Rightarrow> public_url \<Rightarrow> nat \<Rightarrow> product_form \<Rightarrow> unit settled \<times> product_form \<times> effect list" where
  "handleDocumentUpload files rnd percentages rd answer publicUrl nt st =
     (case files of
        None \<Rightarrow> (Resolved (), st, [])
      | Some [] \<Rightarrow> (Resolved (), st, [])
      | Some (file # others) \<Rightarrow>
          (let filePath = ''product-documents/'' @ rnd @ ''.'' @ extension (file_name file);
               st1 = st\<lparr>pf_uploading := True, pf_uploadProgress := 0, pf_error := []\<rparr>
           in
           case uploadFileWithProgress percentages rd answer publicUrl file filePath 0 of
             (Resolved (p, url), progress, effs) \<Rightarrow>
               (Resolved (),
                st1\<lparr>pf_uploadProgress := progress,
                     pf_files := pf_files st1 @
                       [\<lparr>uf_url = url, uf_path = p, uf_name = Some (file_name file),
                         uf_type = Some (file_type file)\<rparr>],
                     pf_success := ''Document uploaded successfully'', pf_uploading := False\<rparr>,
                effs @ [SetTimeout nt 1000])
           | (Threw e, progress, effs) \<Rightarrow>
               (Resolved (),
                st1\<lparr>pf_uploadProgress := progress,
                     pf_error := message_or e ''Error uploading file'', pf_uploading := False\<rparr>,
                effs @ [SetTimeout nt 1000])
           | (NeverSettles, progress, effs) \<Rightarrow>
               (NeverSettles, st1\<lparr>pf_uploadProgress := progress\<rparr>, effs)))"



subsection \<open>Uploads in flight together (uploadGpsrFiles)\<close>


text \<open>
  An awaited operation of a call: the effect that starts it, how it is answered (\<open>Some e\<close> is
  a rejection with \<open>e\<close>), and whether it is the read of the \<open>FileReader\<close>, during which
  progress events arrive.
\<close>

type_synonym step = "effect \<times> js_error option \<times> bool"











text \<open>
  What the browser answers while one file is fetched, read and uploaded: to \<open>fetch(url)\<close>, to
  \<open>response.blob()\<close>, to the reader and to the upload; and the two texts of \<open>Date.now()\<close>,
  in the file name and in the path.
\<close>

record transfer =
  fetched :: "js_error option"
  blobbed :: "js_error option"
  stamp_name :: string
  stamp_path :: string
  was_read :: read_result
  uploaded :: "upload_answer promise"













subsection \<open>The upload button (src/components/ui/file-upload.tsx, handleUpload)\<close>

datatype file_status = StatusUploading | StatusDone | StatusError

text \<open>A \<open>FileWithPreview\<close>: a file with the fields the component adds to it.\<close>

record preview_file =
  pv_name :: string
  pv_progress :: "nat option"
  pv_status :: "file_status option"
  pv_error :: "string option"

record upload_state =
  up_files :: "preview_file list"
  isUploading :: bool

text \<open>
  \<open>await new Promise(resolve => setTimeout(resolve, 50))\<close> followed by
  \<open>updateProgress(i, progress)\<close>: the function sets a timer and goes on when the browser fires
  it. The state is the files, the id of the next timer and the effects so far. Ids are those
  the browser hands out when nothing else sets a timer in between.
\<close>

definition progress_tick ::
  "nat \<Rightarrow> preview_file list \<times> nat \<times> effect list \<Rightarrow> nat
     \<Rightarrow> preview_file list \<times> nat \<times> effect list" where
  "progress_tick i acc progress =
     (case acc of (fs, nt, effs) \<Rightarrow>
        (map (\<lambda>(f, j). if j = i then f\<lparr>pv_progress := Some progress\<rparr> else f)
           (zip fs [0..<length fs]),
         Suc nt, effs @ [SetTimeout nt 50]))"

text \<open>The body of the loop over the files: the simulated progress, then the file is done.\<close>

definition simulate_file ::
  "preview_file list \<times> nat \<times> effect list \<Rightarrow> nat \<Rightarrow> preview_file list \<times> nat \<times> effect list" where
  "simulate_file acc i =
     (case foldl (progress_tick i) acc (map (\<lambda>k. 10 * k) [0..<11]) of (fs, nt, effs) \<Rightarrow>
        (map (\<lambda>(f, j). if j = i then f\<lparr>pv_status := Some StatusDone, pv_progress := Some 100\<rparr>
                         else f)
           (zip fs [0..<length fs]),
         nt, effs))"

text \<open>
  \<open>handleUpload()\<close>: \<open>onUpload\<close> is the \<open>onUpload\<close> property when it is given, as the way
  its call ends (\<open>Some e\<close>: it throws or rejects with \<open>e\<close>), and \<open>nt\<close> the id of the first
  timer.
\<close>

definition handleUpload ::
  "js_error option option \<Rightarrow> nat \<Rightarrow> upload_state \<Rightarrow> upload_state \<times> effect list" where
  "handleUpload onUpload nt st =
     (if up_files st = [] then (st, [])
      else
        let fs0 = map (\<lambda>f. f\<lparr>pv_status := Some StatusUploading, pv_progress := Some 0\<rparr>)
                    (up_files st)
        in
        case onUpload of
          None \<Rightarrow> (\<lparr>up_files = fs0, isUploading = False\<rparr>, [])
        | Some ended \<Rightarrow>
            (case foldl simulate_file (fs0, nt, []) [0..<length fs0] of (fs1, nt1, effs) \<Rightarrow>
               (case ended of
                  None \<Rightarrow> (\<lparr>up_files = fs1, isUploading = False\<rparr>, effs @ [CallOnUpload])
                | Some e \<Rightarrow>
                    (\<lparr>up_files =
                        map (\<lambda>f. f\<lparr>pv_status := Some StatusError,
                                    pv_error := Some (errorMessage e ''Upload failed'')\<rparr>) fs1,
                      isUploading = False\<rparr>,
                     effs @ [CallOnUpload]))))"

subsection \<open>Concrete uploads\<close>













section \<open>Slugs (src/lib/supabase/utils.ts, generateSlug)\<close>

text \<open>
  A JavaScript string is a sequence of UTF-16 code units, here natural numbers. The regular
  expressions of \<open>generateSlug\<close> have no \<open>u\<close> or \<open>i\<close> flag, so they work on code units:
  \<open>\w\<close> is \<open>[A-Za-z0-9_]\<close>, and \<open>\s\<close> is the white space and line terminators of
  ECMAScript, the same code units that \<open>trim\<close> strips.
\<close>

type_synonym code_unit = nat

type_synonym js_string = "code_unit list"

definition isWordChar :: "code_unit \<Rightarrow> bool" where
  "isWordChar c =
     ((0x41 \<le> c \<and> c \<le> 0x5A) \<or> (0x61 \<le> c \<and> c \<le> 0x7A) \<or> (0x30 \<le> c \<and> c \<le> 0x39) \<or> c = 0x5F)"

definition isWhiteSpace :: "code_unit \<Rightarrow> bool" where
  "isWhiteSpace c =
     (c \<in> set [0x09, 0x0A, 0x0B, 0x0C, 0x0D, 0x20, 0xA0, 0x1680, 0x2028, 0x2029, 0x202F, 0x205F, 0x3000, 0xFEFF]
      \<or> (0x2000 \<le> c \<and> c \<le> 0x200A))"

definition hyphen :: code_unit where
  "hyphen = 0x2D"

definition underscore :: code_unit where
  "underscore = 0x5F"

text \<open>The class \<open>[\s_-]\<close>.\<close>

definition isSeparator :: "code_unit \<Rightarrow> bool" where
  "isSeparator c = (isWhiteSpace c \<or> c = underscore \<or> c = hyphen)"

text \<open>\<open>String.prototype.trim\<close>\<close>

definition trim :: "js_string \<Rightarrow> js_string" where
  "trim s = rev (dropWhile isWhiteSpace (rev (dropWhile isWhiteSpace s)))"

text \<open>
  \<open>.replace(/[\s_-]+/g, '-')\<close>: every maximal run of separators becomes one hyphen.
\<close>

function collapseSeparators :: "js_string \<Rightarrow> js_string" where
  "collapseSeparators [] = []"
| "collapseSeparators (c # cs) =
     (if isSeparator c then hyphen # collapseSeparators (dropWhile isSeparator cs)
      else c # collapseSeparators cs)"
  by pat_completeness auto
termination
  by (relation "measure length") (auto simp: less_Suc_eq_le length_dropWhile_le)

text \<open>\<open>.replace(/[^\w\s-]/g, '')\<close>\<close>

definition removeSpecial :: "js_string \<Rightarrow> js_string" where
  "removeSpecial s = filter (\<lambda>c. isWordChar c \<or> isWhiteSpace c \<or> c = hyphen) s"

text \<open>\<open>.replace(/^-+|-+$/g, '')\<close>: the hyphens at the start and at the end are removed.\<close>

definition stripHyphens :: "js_string \<Rightarrow> js_string" where
  "stripHyphens s = rev (dropWhile (\<lambda>c. c = hyphen) (rev (dropWhile (\<lambda>c. c = hyphen) s)))"

text \<open>
  \<open>generateSlug(str)\<close>. \<open>String.prototype.toLowerCase\<close> follows the Unicode case
  mappings, which are not part of the repository: it is a parameter of the model.
\<close>

definition generateSlug :: "(js_string \<Rightarrow> js_string) \<Rightarrow> js_string \<Rightarrow> js_string" where
  "generateSlug toLowerCase str =
     stripHyphens (collapseSeparators (removeSpecial (trim (toLowerCase str))))"

text \<open>The code units \<open>A-Z\<close>, and \<open>a-z\<close> with \<open>0-9\<close>.\<close>

definition isUpperAscii :: "code_unit \<Rightarrow> bool" where
  "isUpperAscii c = (0x41 \<le> c \<and> c \<le> 0x5A)"

definition isLowerAlnum :: "code_unit \<Rightarrow> bool" where
  "isLowerAlnum c = ((0x61 \<le> c \<and> c \<le> 0x7A) \<or> (0x30 \<le> c \<and> c \<le> 0x39))"

text \<open>The case mapping on strings of ASCII code units.\<close>

definition toLowerCase_ascii :: "js_string \<Rightarrow> js_string" where
  "toLowerCase_ascii s = map (\<lambda>c. if isUpperAscii c then c + 0x20 else c) s"

text \<open>No two hyphens are adjacent.\<close>

fun singleHyphens :: "js_string \<Rightarrow> bool" where
  "singleHyphens (a # b # cs) = (\<not> (a = hyphen \<and> b = hyphen) \<and> singleHyphens (b # cs))"
| "singleHyphens _ = True"

text \<open>
  The shape of a slug: lowercase letters, digits and single hyphens, with no hyphen at the
  start or at the end.
\<close>

definition slugShaped :: "js_string \<Rightarrow> bool" where
  "slugShaped s =
     (list_all (\<lambda>c. isLowerAlnum c \<or> c = hyphen) s \<and> singleHyphens s \<and>
      (case s of [] \<Rightarrow> True | c # _ \<Rightarrow> c \<noteq> hyphen \<and> last s \<noteq> hyphen))"

section \<open>Product safety metadata (supabase/migrations, src/types/product.ts)\<close>

text \<open>
  The migrations are declarations that the database executes. Their model is the table they
  act on, as the list of its column declarations and the list of its rows, and the part of the
  semantics of SQL that the declarations use: \<open>ADD COLUMN IF NOT EXISTS\<close>, \<open>NOT NULL\<close>,
  \<open>DEFAULT\<close> and \<open>CHECK (column IN (...))\<close>.
\<close>

datatype sql_type = TEXT | TEXT_ARRAY | TIMESTAMPTZ | UUID

datatype sql_value = Null | Text string | TextArray "string list" | Timestamp string | Uuid string

text \<open>
  A column declaration; \<open>col_default\<close> is \<open>Null\<close> when there is no \<open>DEFAULT\<close> clause,
  \<open>check_in\<close> is the list of a \<open>CHECK (column IN (...))\<close> clause.
\<close>

record column =
  col_name :: string
  col_type :: sql_type
  not_null :: bool
  col_default :: sql_value
  check_in :: "string list option"

type_synonym row = "(string \<times> sql_value) list"

record table =
  columns :: "column list"
  rows :: "row list"

text \<open>The value of a column in a row; a column the row does not mention is null.\<close>

definition cell :: "row \<Rightarrow> string \<Rightarrow> sql_value" where
  "cell r c = (case map_of r c of None \<Rightarrow> Null | Some v \<Rightarrow> v)"

text \<open>
  A value satisfies a column's constraints: it is not null under \<open>NOT NULL\<close>, and under a
  \<open>CHECK\<close> it is one of the listed texts or null (a check whose result is unknown passes).
\<close>

definition satisfies :: "column \<Rightarrow> sql_value \<Rightarrow> bool" where
  "satisfies col v =
     ((if not_null col then v \<noteq> Null else True) \<and>
      (case check_in col of
         None \<Rightarrow> True
       | Some allowed \<Rightarrow> v = Null \<or> v \<in> set (map Text allowed)))"

text \<open>
  \<open>ALTER TABLE ... ADD COLUMN IF NOT EXISTS\<close>: a column whose name the table already has is
  skipped; a new column is appended and every existing row gets its default.
\<close>

definition add_column_if_not_exists :: "column \<Rightarrow> table \<Rightarrow> table" where
  "add_column_if_not_exists col t =
     (if col_name col \<in> set (map col_name (columns t)) then t
      else \<lparr>columns = columns t @ [col],
            rows = map (\<lambda>r. r @ [(col_name col, col_default col)]) (rows t)\<rparr>)"

text \<open>supabase/migrations/20240628090200_add_gpsr_fields_to_products.sql\<close>

definition moderation_values :: "string list" where
  "moderation_values = [''pending'', ''approved'', ''rejected'']"

definition gpsr_moderation_status_column :: column where
  "gpsr_moderation_status_column =
     \<lparr>col_name = ''gpsr_moderation_status'', col_type = TEXT, not_null = True,
      col_default = Text ''pending'', check_in = Some moderation_values\<rparr>"

definition gpsr_columns :: "column list" where
  "gpsr_columns =
     [\<lparr>col_name = ''gpsr_identification_details'', col_type = TEXT, not_null = False,
       col_default = Null, check_in = None\<rparr>,
      \<lparr>col_name = ''gpsr_pictograms'', col_type = TEXT_ARRAY, not_null = False,
       col_default = TextArray [], check_in = None\<rparr>,
      \<lparr>col_name = ''gpsr_declarations_of_conformity'', col_type = TEXT, not_null = False,
       col_default = Null, check_in = None\<rparr>,
      \<lparr>col_name = ''gpsr_certificates'', col_type = TEXT_ARRAY, not_null = False,
       col_default = TextArray [], check_in = None\<rparr>,
      gpsr_moderation_status_column,
      \<lparr>col_name = ''gpsr_moderation_comment'', col_type = TEXT, not_null = False,
       col_default = Null, check_in = None\<rparr>,
      \<lparr>col_name = ''gpsr_last_submission_date'', col_type = TIMESTAMPTZ, not_null = False,
       col_default = Null, check_in = None\<rparr>,
      \<lparr>col_name = ''gpsr_last_moderation_date'', col_type = TIMESTAMPTZ, not_null = False,
       col_default = Null, check_in = None\<rparr>,
      \<lparr>col_name = ''gpsr_submitted_by_supplier_user'', col_type = TEXT, not_null = False,
       col_default = Null, check_in = None\<rparr>]"

definition add_gpsr_fields_to_products :: "table \<Rightarrow> table" where
  "add_gpsr_fields_to_products t = foldl (\<lambda>t' col. add_column_if_not_exists col t') t gpsr_columns"

text \<open>
  An \<open>INSERT\<close> of the supplied values: every column takes the supplied value, or its default
  when none is supplied; the row is rejected (\<open>None\<close>) when a value violates a constraint.
\<close>

definition new_row :: "column list \<Rightarrow> row \<Rightarrow> row" where
  "new_row cols supplied =
     map (\<lambda>col. (col_name col,
                 case map_of supplied (col_name col) of
                   None \<Rightarrow> col_default col
                 | Some v \<Rightarrow> v)) cols"

definition row_ok :: "column list \<Rightarrow> row \<Rightarrow> bool" where
  "row_ok cols r = list_all (\<lambda>col. satisfies col (cell r (col_name col))) cols"

definition sql_insert :: "row \<Rightarrow> table \<Rightarrow> table option" where
  "sql_insert supplied t =
     (let r = new_row (columns t) supplied in
      if row_ok (columns t) r then Some (t\<lparr>rows := rows t @ [r]\<rparr>) else None)"

text \<open>
  An \<open>UPDATE ... SET\<close> of the supplied values on the rows that \<open>sel\<close> selects; the statement
  is rejected when a changed row violates a constraint.
\<close>

definition set_cells :: "row \<Rightarrow> row \<Rightarrow> row" where
  "set_cells supplied r =
     map (\<lambda>(c, v). (c, case map_of supplied c of None \<Rightarrow> v | Some v' \<Rightarrow> v')) r"

definition sql_update :: "(row \<Rightarrow> bool) \<Rightarrow> row \<Rightarrow> table \<Rightarrow> table option" where
  "sql_update sel supplied t =
     (let rs = map (\<lambda>r. if sel r then set_cells supplied r else r) (rows t) in
      if list_all (row_ok (columns t)) rs then Some (t\<lparr>rows := rs\<rparr>) else None)"

text \<open>A statement of the application against the table, and a run of statements.\<close>

datatype statement = InsertRow row | UpdateRows "row \<Rightarrow> bool" row

fun execute :: "statement \<Rightarrow> table \<Rightarrow> table" where
  "execute (InsertRow supplied) t = (case sql_insert supplied t of None \<Rightarrow> t | Some t' \<Rightarrow> t')"
| "execute (UpdateRows sel supplied) t = (case sql_update sel supplied t of None \<Rightarrow> t | Some t' \<Rightarrow> t')"

definition run :: "statement list \<Rightarrow> table \<Rightarrow> table" where
  "run stmts t = foldl (\<lambda>t' s. execute s t') t stmts"

text \<open>The moderation status of a row is one of the three values, as a non-null text.\<close>

definition moderation_status_ok :: "row \<Rightarrow> bool" where
  "moderation_status_ok r = (cell r ''gpsr_moderation_status'' \<in> set (map Text moderation_values))"

text \<open>A row carries the columns of the migration.\<close>

definition carries_gpsr_columns :: "row \<Rightarrow> bool" where
  "carries_gpsr_columns r = list_all (\<lambda>col. col_name col \<in> set (map fst r)) gpsr_columns"

text \<open>
  The \<open>products\<close> table as the migration that creates it declares it, with no rows yet, and
  with one row.
\<close>

definition products_created :: table where
  "products_created =
     \<lparr>columns =
        [\<lparr>col_name = ''id'', col_type = UUID, not_null = True, col_default = Null, check_in = None\<rparr>,
         \<lparr>col_name = ''name'', col_type = TEXT, not_null = True, col_default = Null, check_in = None\<rparr>,
         \<lparr>col_name = ''description'', col_type = TEXT, not_null = False, col_default = Null,
          check_in = None\<rparr>,
         \<lparr>col_name = ''category_id'', col_type = UUID, not_null = False, col_default = Null,
          check_in = None\<rparr>,
         \<lparr>col_name = ''created_at'', col_type = TIMESTAMPTZ, not_null = True, col_default = Null,
          check_in = None\<rparr>,
         \<lparr>col_name = ''updated_at'', col_type = TIMESTAMPTZ, not_null = True, col_default = Null,
          check_in = None\<rparr>],
      rows = []\<rparr>"

definition product_row_lamp :: row where
  "product_row_lamp =
     [(''id'', Uuid ''p-1''), (''name'', Text ''Lamp''), (''description'', Null),
      (''category_id'', Null), (''created_at'', Timestamp ''2024-06-01T00:00:00Z''),
      (''updated_at'', Timestamp ''2024-06-01T00:00:00Z'')]"

text \<open>
  The client-side \<open>Product\<close> type (src/types/product.ts): its compliance fields, all
  optional, and the literal type of \<open>moderation_status\<close>.
\<close>

datatype moderation = ModerationPending | ModerationApproved | ModerationRejected

fun moderation_literal :: "moderation \<Rightarrow> string" where
  "moderation_literal ModerationPending = ''pending''"
| "moderation_literal ModerationApproved = ''approved''"
| "moderation_literal ModerationRejected = ''rejected''"

datatype product_status = Draft | Published | Archived

record Product =
  id_product :: string
  name_product :: string
  description :: string
  price :: int
  category_id :: "string option"
  user_id_product :: string
  created_at_product :: string
  updated_at_product :: string
  status :: product_status
  images :: "string list option"
  documents :: "string list option"
  gpsr_category :: "string option"
  gpsr_compliance :: "bool option"
  gpsr_notes :: "string option"
  moderation_status :: "moderation option"
  moderation_notes :: "string option"
  moderation_date :: "string option"
  moderation_by :: "string option"

text \<open>Every row has exactly the table's columns, in their order.\<close>

definition well_formed :: "table \<Rightarrow> bool" where
  "well_formed t = list_all (\<lambda>r. map fst r = map col_name (columns t)) (rows t)"

text \<open>What holds of the table from the migration on.\<close>

definition gpsr_invariant :: "table \<Rightarrow> bool" where
  "gpsr_invariant t =
     (well_formed t \<and> gpsr_moderation_status_column \<in> set (columns t)
      \<and> set (map col_name gpsr_columns) \<subseteq> set (map col_name (columns t))
      \<and> list_all moderation_status_ok (rows t))"

text \<open>A table with one product that predates the migration, and statements of the application.\<close>

definition products_before :: table where
  "products_before = products_created\<lparr>rows := [product_row_lamp]\<rparr>"

definition insert_chair :: statement where
  "insert_chair =
     InsertRow [(''id'', Uuid ''p-2''), (''name'', Text ''Chair''),
                (''created_at'', Timestamp ''2024-07-01T00:00:00Z''),
                (''updated_at'', Timestamp ''2024-07-01T00:00:00Z'')]"

definition approve_lamp :: statement where
  "approve_lamp =
     UpdateRows (\<lambda>r. cell r ''id'' = Uuid ''p-1'') [(''gpsr_moderation_status'', Text ''approved'')]"

definition bogus_status :: statement where
  "bogus_status =
     UpdateRows (\<lambda>r. cell r ''id'' = Uuid ''p-2'') [(''gpsr_moderation_status'', Text ''escalated'')]"

chapter \<open>Properties\<close>

section \<open>Session retrieval\<close>

lemma getSession_force:
  "getSession env True =
     (case session_or_throw (sdk_refreshSession env) of
        Inl e \<Rightarrow> (None, [AuthRefreshSession]) | Inr s \<Rightarrow> (s, [AuthRefreshSession]))"
  by (simp add: getSession_def)

lemma getSession_error_null:
  "session_or_throw (sdk_getSession env) = Inl e \<Longrightarrow> getSession env False = (None, [AuthGetSession])"
  by (simp add: getSession_def)

lemma getSession_refresh_error_null:
  assumes "session_or_throw (sdk_refreshSession env) = Inl e"
    and "AuthRefreshSession \<in> set (snd (getSession env forceRefresh))"
  shows "fst (getSession env forceRefresh) = None"
  using assms by (auto simp: getSession_def split: sum.splits if_splits)

lemma bitLength_0: "bitLength 0 = 0"
  by (simp add: bitLength.simps)

lemma bitLength_1: "bitLength (Suc 0) = Suc 0"
  by (subst bitLength.simps) (simp add: bitLength_0)

lemma bitLength_Bit0: "bitLength (numeral (Num.Bit0 k)) = Suc (bitLength (numeral k))"
  by (subst bitLength.simps) simp

lemma bitLength_Bit1: "bitLength (numeral (Num.Bit1 k)) = Suc (bitLength (numeral k))"
  by (subst bitLength.simps) simp

lemmas bitLength_numeral = bitLength_0 bitLength_1 bitLength_Bit0 bitLength_Bit1

lemma bitLength_le: "m < 2 ^ n \<Longrightarrow> bitLength m \<le> n"
proof (induction n arbitrary: m)
  case 0
  then show ?case by (simp add: bitLength.simps)
next
  case (Suc n)
  from Suc.prems have "m div 2 < 2 ^ n" by simp
  then have "bitLength (m div 2) \<le> n" by (rule Suc.IH)
  then show ?case by (subst bitLength.simps) simp
qed

lemma roundTiesToEven_one: "roundTiesToEven (Suc 0) m = m"
  by (simp add: roundTiesToEven_def)

text \<open>On the safe integers the arithmetic is exact.\<close>

lemma toDouble_safe:
  assumes "isSafeInteger x"
  shows "toDouble x = Num x"
proof -
  from assms have m: "nat \<bar>x\<bar> < 2 ^ 53"
    by (simp add: isSafeInteger_def nat_less_iff)
  then have b: "bitLength (nat \<bar>x\<bar>) - 53 = 0"
    using bitLength_le [of "nat \<bar>x\<bar>" 53] by simp
  have "(2::nat) ^ 53 \<le> 2 ^ 1024"
    by (rule power_increasing) simp_all
  with m have l: "\<not> 2 ^ 1024 \<le> nat \<bar>x\<bar>" by linarith
  show ?thesis
    unfolding toDouble_def Let_def b power_0 One_nat_def roundTiesToEven_one
    using l by simp
qed

lemma guard_exact:
  assumes "isSafeInteger (e * 1000)" and "isSafeInteger (t * 1000)"
    and "isSafeInteger (n + t * 1000)"
  shows "js_less (js_times e 1000) (js_plus n (js_times t 1000)) = (e * 1000 < n + t * 1000)"
  by (simp add: js_times_def toDouble_safe [OF assms(1)] toDouble_safe [OF assms(2)]
      toDouble_safe [OF assms(3)])

lemma aboutToExpire_exact:
  assumes "\<forall>e. expires_at s = Some e \<longrightarrow> isSafeInteger (e * 1000)"
    and "isSafeInteger (refreshTokenThreshold env * 1000)"
    and "isSafeInteger (now env + refreshTokenThreshold env * 1000)"
  shows "aboutToExpire env (Some s) =
     (\<exists>e. expires_at s = Some e \<and> e \<noteq> 0
          \<and> e * 1000 < now env + refreshTokenThreshold env * 1000)"
proof (cases "expires_at s")
  case None
  then show ?thesis by (simp add: aboutToExpire_def)
next
  case (Some e)
  with assms(1) have "isSafeInteger (e * 1000)" by simp
  from guard_exact [OF this assms(2) assms(3)] Some show ?thesis
    by (simp add: aboutToExpire_def)
qed

text \<open>
  C1, as the claim states its first part: a session obtained without \<open>forceRefresh\<close> whose
  \<open>expires_at * 1000\<close> is below \<open>Date.now() + refreshTokenThreshold * 1000\<close> is refreshed.
  The code does not do so in two cases. For \<open>expires_at = 0\<close> the number 0 is falsy, the
  guard \<open>session?.expires_at && ...\<close> fails, and the obtained session is returned with no
  refresh, although \<open>0 * 1000 < 1700000000000 + 300 * 1000\<close>. And beyond the safe integers
  the comparison is one of rounded doubles: with \<open>expires_at = 9008899254742\<close>, the time
  1700000000001 and a threshold of 9007199254742 seconds, the sum 9008899254742001 rounds to
  9008899254742000, which is not above \<open>expires_at * 1000\<close>, and the session is returned with
  no refresh.
\<close>

theorem getSession_not_refreshed:
  "session_or_throw (sdk_getSession env_epoch) = Inr (Some session_epoch)
   \<and> expires_at session_epoch = Some 0
   \<and> 0 * 1000 < now env_epoch + refreshTokenThreshold env_epoch * 1000
   \<and> getSession env_epoch False = (Some session_epoch, [AuthGetSession])
   \<and> session_or_throw (sdk_getSession env_rounding) = Inr (Some session_far)
   \<and> expires_at session_far = Some 9008899254742
   \<and> 9008899254742 * 1000 < now env_rounding + refreshTokenThreshold env_rounding * 1000
   \<and> getSession env_rounding False = (Some session_far, [AuthGetSession])"
proof -
  have 1: "getSession env_epoch False = (Some session_epoch, [AuthGetSession])"
    by (simp add: getSession_def aboutToExpire_def env_epoch_def session_epoch_def)
  have "\<not> js_less (js_times 9008899254742 1000) (js_plus 1700000000001 (js_times 9007199254742 1000))"
    by (simp add: js_times_def toDouble_def roundTiesToEven_def bitLength_numeral Let_def)
  then have 2: "getSession env_rounding False = (Some session_far, [AuthGetSession])"
    by (simp add: getSession_def aboutToExpire_def env_rounding_def session_far_def)
  have 3: "session_or_throw (sdk_getSession env_epoch) = Inr (Some session_epoch)
      \<and> expires_at session_epoch = Some 0
      \<and> 0 * 1000 < now env_epoch + refreshTokenThreshold env_epoch * 1000"
    by (simp add: env_epoch_def session_epoch_def default_refreshTokenThreshold_def)
  have 4: "session_or_throw (sdk_getSession env_rounding) = Inr (Some session_far)
      \<and> expires_at session_far = Some 9008899254742
      \<and> 9008899254742 * 1000 < now env_rounding + refreshTokenThreshold env_rounding * 1000"
    by (simp add: env_rounding_def session_far_def)
  from 1 2 3 4 show ?thesis by simp
qed

text \<open>
  C1, amended: for every call of \<open>getSession\<close> with \<open>forceRefresh = false\<close> that obtains a
  session \<open>s\<close>, where \<open>expires_at * 1000\<close>, \<open>refreshTokenThreshold * 1000\<close> and the current
  time plus \<open>refreshTokenThreshold * 1000\<close> are safe integers (at most \<open>2 ^ 53 - 1\<close> in
  magnitude): if \<open>expires_at\<close> of \<open>s\<close> is present and not 0 and \<open>expires_at * 1000\<close> is less
  than the current time plus \<open>refreshTokenThreshold * 1000\<close>, then \<open>getSession\<close> calls the SDK's
  \<open>getSession\<close> and then its \<open>refreshSession\<close> and returns the refreshed session (null when the
  refresh fails); otherwise it calls only the SDK's \<open>getSession\<close> and returns \<open>s\<close> unchanged.
  With \<open>forceRefresh = true\<close> it always calls \<open>refreshSession\<close>, and only that, and returns its
  session. Whenever an SDK call that it makes rejects or answers with an error, the result is
  null.
\<close>

theorem getSession_refresh_policy:
  "(session_or_throw (sdk_getSession env) = Inr (Some s)
      \<and> (\<forall>e. expires_at s = Some e \<longrightarrow> isSafeInteger (e * 1000))
      \<and> isSafeInteger (refreshTokenThreshold env * 1000)
      \<and> isSafeInteger (now env + refreshTokenThreshold env * 1000) \<longrightarrow>
      (if (\<exists>e. expires_at s = Some e \<and> e \<noteq> 0
              \<and> e * 1000 < now env + refreshTokenThreshold env * 1000)
       then getSession env False =
              (case session_or_throw (sdk_refreshSession env) of Inl err \<Rightarrow> None | Inr r \<Rightarrow> r,
               [AuthGetSession, AuthRefreshSession])
       else getSession env False = (Some s, [AuthGetSession])))
   \<and> getSession env True =
       (case session_or_throw (sdk_refreshSession env) of Inl err \<Rightarrow> None | Inr r \<Rightarrow> r,
        [AuthRefreshSession])
   \<and> (\<forall>err. session_or_throw (sdk_getSession env) = Inl err \<longrightarrow>
         getSession env False = (None, [AuthGetSession]))
   \<and> (\<forall>err forceRefresh. session_or_throw (sdk_refreshSession env) = Inl err
         \<and> AuthRefreshSession \<in> set (snd (getSession env forceRefresh)) \<longrightarrow>
         fst (getSession env forceRefresh) = None)"
proof -
  have a: "session_or_throw (sdk_getSession env) = Inr (Some s)
      \<and> (\<forall>e. expires_at s = Some e \<longrightarrow> isSafeInteger (e * 1000))
      \<and> isSafeInteger (refreshTokenThreshold env * 1000)
      \<and> isSafeInteger (now env + refreshTokenThreshold env * 1000) \<longrightarrow>
      (if (\<exists>e. expires_at s = Some e \<and> e \<noteq> 0
              \<and> e * 1000 < now env + refreshTokenThreshold env * 1000)
       then getSession env False =
              (case session_or_throw (sdk_refreshSession env) of Inl err \<Rightarrow> None | Inr r \<Rightarrow> r,
               [AuthGetSession, AuthRefreshSession])
       else getSession env False = (Some s, [AuthGetSession]))"
  proof (intro impI, elim conjE)
    assume g: "session_or_throw (sdk_getSession env) = Inr (Some s)"
      and r: "\<forall>e. expires_at s = Some e \<longrightarrow> isSafeInteger (e * 1000)"
        "isSafeInteger (refreshTokenThreshold env * 1000)"
        "isSafeInteger (now env + refreshTokenThreshold env * 1000)"
    note x = aboutToExpire_exact [OF r]
    show "if (\<exists>e. expires_at s = Some e \<and> e \<noteq> 0
              \<and> e * 1000 < now env + refreshTokenThreshold env * 1000)
       then getSession env False =
              (case session_or_throw (sdk_refreshSession env) of Inl err \<Rightarrow> None | Inr r \<Rightarrow> r,
               [AuthGetSession, AuthRefreshSession])
       else getSession env False = (Some s, [AuthGetSession])"
      unfolding x [symmetric]
      by (simp add: getSession_def g split: sum.splits)
  qed
  have b: "getSession env True =
       (case session_or_throw (sdk_refreshSession env) of Inl err \<Rightarrow> None | Inr r \<Rightarrow> r,
        [AuthRefreshSession])"
    by (simp add: getSession_force split: sum.splits)
  show ?thesis
    using a b getSession_error_null getSession_refresh_error_null by blast
qed

theorem getSession_refresh_policy_witness:
  "session_or_throw (sdk_getSession env_expiring) = Inr (Some session_expiring)
   \<and> expires_at session_expiring = Some 1700000100
   \<and> isSafeInteger (1700000100 * 1000)
   \<and> isSafeInteger (refreshTokenThreshold env_expiring * 1000)
   \<and> isSafeInteger (now env_expiring + refreshTokenThreshold env_expiring * 1000)
   \<and> getSession env_expiring False = (Some session_fresh, [AuthGetSession, AuthRefreshSession])
   \<and> getSession env_expiring True = (Some session_fresh, [AuthRefreshSession])
   \<and> session_or_throw (sdk_refreshSession env_refresh_fails) = Inl (JsError ''Invalid Refresh Token'')
   \<and> fst (getSession env_refresh_fails True) = None"
proof -
  have g: "session_or_throw (sdk_getSession env_expiring) = Inr (Some session_expiring)"
    by (simp add: env_expiring_def)
  have e: "expires_at session_expiring = Some 1700000100"
    by (simp add: session_expiring_def)
  have i: "isSafeInteger (1700000100 * 1000)"
      "isSafeInteger (refreshTokenThreshold env_expiring * 1000)"
      "isSafeInteger (now env_expiring + refreshTokenThreshold env_expiring * 1000)"
    by (simp_all add: isSafeInteger_def env_expiring_def default_refreshTokenThreshold_def)
  from e i(1) have j: "\<forall>e. expires_at session_expiring = Some e \<longrightarrow> isSafeInteger (e * 1000)"
    by simp
  have c: "\<exists>e. expires_at session_expiring = Some e \<and> e \<noteq> 0
      \<and> e * 1000 < now env_expiring + refreshTokenThreshold env_expiring * 1000"
    by (simp add: session_expiring_def env_expiring_def default_refreshTokenThreshold_def)
  have r: "session_or_throw (sdk_refreshSession env_expiring) = Inr (Some session_fresh)"
    by (simp add: env_expiring_def)
  have f: "session_or_throw (sdk_refreshSession env_refresh_fails) = Inl (JsError ''Invalid Refresh Token'')"
    by (simp add: env_refresh_fails_def)
  have m: "AuthRefreshSession \<in> set (snd (getSession env_refresh_fails True))"
    by (simp add: getSession_force f)
  from getSession_refresh_policy [of env_expiring session_expiring] g j i(2) i(3) c r
  have 1: "getSession env_expiring False = (Some session_fresh, [AuthGetSession, AuthRefreshSession])"
    and 2: "getSession env_expiring True = (Some session_fresh, [AuthRefreshSession])"
    by simp_all
  from getSession_refresh_policy [of env_refresh_fails session_expiring] f m
  have 3: "fst (getSession env_refresh_fails True) = None"
    by blast
  from g e i 1 2 f 3 show ?thesis by simp
qed

section \<open>Refreshing through the provider\<close>

text \<open>
  C8: every invocation of the provider's \<open>refreshSession\<close>, on either content that
  \<open>getSessionRef\<close> ever holds (the initial stub or \<open>getSession\<close>), returns \<open>error = null\<close>;
  when the SDK's token refresh failed the result is
  \<open>{ error: null, user: null, session: null }\<close> (with \<open>data\<close> undefined), exactly the result
  of a refresh that succeeded with no session, so the \<open>error\<close> field does not tell the two
  apart.
\<close>

theorem refreshSession_error_always_null:
  "error (fst (refreshSession (Some (getSession env)))) = None
   \<and> error (fst (refreshSession (Some getSessionRef_initial))) = None
   \<and> (\<forall>e. session_or_throw (sdk_refreshSession env) = Inl e \<longrightarrow>
        fst (refreshSession (Some (getSession env)))
          = \<lparr>error = None, user_resp = None, session = None, data = None\<rparr>)
   \<and> (session_or_throw (sdk_refreshSession env) = Inr None \<longrightarrow>
        fst (refreshSession (Some (getSession env)))
          = \<lparr>error = None, user_resp = None, session = None, data = None\<rparr>)"
  by (simp add: refreshSession_def getSession_force getSessionRef_initial_def split: sum.splits)

theorem refreshSession_error_always_null_witness:
  "session_or_throw (sdk_refreshSession env_refresh_fails) = Inl (JsError ''Invalid Refresh Token'')
   \<and> refreshSession (Some (getSession env_refresh_fails))
       = (\<lparr>error = None, user_resp = None, session = None, data = None\<rparr>, [AuthRefreshSession])"
proof -
  have f: "session_or_throw (sdk_refreshSession env_refresh_fails) = Inl (JsError ''Invalid Refresh Token'')"
    by (simp add: env_refresh_fails_def)
  with refreshSession_error_always_null [of env_refresh_fails]
  have "fst (refreshSession (Some (getSession env_refresh_fails)))
          = \<lparr>error = None, user_resp = None, session = None, data = None\<rparr>"
    by blast
  moreover have "snd (refreshSession (Some (getSession env_refresh_fails))) = [AuthRefreshSession]"
    by (simp add: refreshSession_def getSession_force f)
  ultimately show ?thesis using f by (simp add: prod_eq_iff)
qed

section \<open>Redirect policy\<close>








section \<open>Per-user row scoping\<close>

lemma map_of_obj_set: "map_of (obj_set k v kvs) k = Some v"
  by (induction kvs) auto

lemma map_of_obj_set_other: "k' \<noteq> k \<Longrightarrow> map_of (obj_set k v kvs) k' = map_of kvs k'"
  by (induction kvs) auto

lemma useTable_scoped:
  "list_all (scopedTo (id_user u)) (snd (snd (fetchAll a1 t (Some u) st)))"
  "list_all (scopedTo (id_user u)) (snd (snd (fetchById a2 t (Some u) i st)))"
  "list_all (scopedTo (id_user u)) (snd (snd (update_row a3 t (Some u) i vals st)))"
  "list_all (scopedTo (id_user u)) (snd (snd (remove_row a4 t (Some u) i st)))"
  by (simp_all add: fetchAll_def fetchById_def update_row_def remove_row_def scopedTo_def Let_def
      split: sum.splits)

lemma useTable_one_query:
  "length (snd (snd (fetchAll a1 t (Some u) st))) = 1"
  "length (snd (snd (fetchById a2 t (Some u) i st))) = 1"
  "length (snd (snd (update_row a3 t (Some u) i vals st))) = 1"
  "length (snd (snd (remove_row a4 t (Some u) i st))) = 1"
  "length (snd (snd (insert_row a5 t (Some u) vals st))) = 1"
  by (simp_all add: fetchAll_def fetchById_def update_row_def remove_row_def insert_row_def Let_def
      split: sum.splits)

lemma insert_row_stamped:
  "list_all (stampedWith (id_user u)) (snd (snd (insert_row a5 t (Some u) vals st)))"
  by (simp add: insert_row_def stampedWith_def Let_def map_of_obj_set split: sum.splits)

lemma useTable_no_user:
  "fetchAll a1 t None st = (None, st, [])"
  "fetchById a2 t None i st = (None, st, [])"
  "insert_row a5 t None vals st = (None, st, [])"
  "update_row a3 t None i vals st = (None, st, [])"
  "remove_row a4 t None i st = (False, st, [])"
  by (simp_all add: fetchAll_def fetchById_def update_row_def remove_row_def insert_row_def)

lemma fetchData_foreign_category:
  assumes "i \<noteq> []" and "user_or_throw g = Inr (Some u)"
    and "data_or_throw c = Inr (Some categoryData)" and "user_id categoryData \<noteq> id_user u"
  shows "fetchData (Some i) g c a st =
           (st\<lparr>edit_loading := False,
               edit_error := ''You do not have permission to edit this category''\<rparr>,
            [AuthGetUser, Query (Select ''categories'' [Eq ''id'' (JString i)] True)])"
  using assms by (simp add: fetchData_def Let_def)

text \<open>
  C4: with an authenticated user \<open>u\<close>, each of \<open>fetchAll\<close>, \<open>fetchById\<close>, \<open>update\<close> and
  \<open>remove\<close> issues exactly one query, and that query filters on \<open>user_id = u.id\<close>;
  \<open>insert\<close> issues exactly one insertion, whose row has \<open>user_id = u.id\<close> whatever the
  caller passed. With no user, every operation returns null (\<open>remove\<close>: false), leaves the
  hook state alone and issues no query. \<open>EditCategory\<close> rejects a category whose \<open>user_id\<close>
  differs from the current user's id: it sets the error message and neither stores the category
  in its state nor fills the form.
\<close>

theorem useTable_per_user_scoping:
  "list_all (scopedTo (id_user u)) (snd (snd (fetchAll a1 t (Some u) st)))
   \<and> list_all (scopedTo (id_user u)) (snd (snd (fetchById a2 t (Some u) i st)))
   \<and> list_all (scopedTo (id_user u)) (snd (snd (update_row a3 t (Some u) i vals st)))
   \<and> list_all (scopedTo (id_user u)) (snd (snd (remove_row a4 t (Some u) i st)))
   \<and> list_all (stampedWith (id_user u)) (snd (snd (insert_row a5 t (Some u) vals st)))
   \<and> length (snd (snd (fetchAll a1 t (Some u) st))) = 1
   \<and> length (snd (snd (fetchById a2 t (Some u) i st))) = 1
   \<and> length (snd (snd (update_row a3 t (Some u) i vals st))) = 1
   \<and> length (snd (snd (remove_row a4 t (Some u) i st))) = 1
   \<and> length (snd (snd (insert_row a5 t (Some u) vals st))) = 1
   \<and> fetchAll a1 t None st = (None, st, [])
   \<and> fetchById a2 t None i st = (None, st, [])
   \<and> insert_row a5 t None vals st = (None, st, [])
   \<and> update_row a3 t None i vals st = (None, st, [])
   \<and> remove_row a4 t None i st = (False, st, [])
   \<and> (i \<noteq> [] \<and> user_or_throw g = Inr (Some u) \<and> data_or_throw c = Inr (Some categoryData)
        \<and> user_id categoryData \<noteq> id_user u \<longrightarrow>
        fetchData (Some i) g c a est =
          (est\<lparr>edit_loading := False,
               edit_error := ''You do not have permission to edit this category''\<rparr>,
           [AuthGetUser, Query (Select ''categories'' [Eq ''id'' (JString i)] True)]))"
  by (simp add: useTable_scoped useTable_one_query insert_row_stamped useTable_no_user
      fetchData_foreign_category)

theorem useTable_per_user_scoping_witness:
  "snd (snd (insert_row (Fulfilled (PgAnswer (Some cat_books) None)) ''categories'' (Some alice)
       [(''name'', JString ''Books''), (''user_id'', JString ''u-mallory'')] hook_idle))
     = [Query (Insert ''categories'' [(''name'', JString ''Books''), (''user_id'', JString ''u-alice'')])]
   \<and> snd (snd (remove_row (Fulfilled (PgAnswer () None)) ''categories'' (Some alice) ''c-books'' hook_idle))
     = [Query (Delete ''categories'' [Eq ''id'' (JString ''c-books''), Eq ''user_id'' (JString ''u-alice'')])]
   \<and> user_id cat_foreign \<noteq> id_user alice
   \<and> fetchData (Some ''c-foreign'') (Fulfilled (UserAnswer (Some alice) None))
        (Fulfilled (PgAnswer (Some cat_foreign) None)) (Fulfilled (PgAnswer (Some []) None)) edit_initial
     = (edit_initial\<lparr>edit_loading := False,
                     edit_error := ''You do not have permission to edit this category''\<rparr>,
        [AuthGetUser, Query (Select ''categories'' [Eq ''id'' (JString ''c-foreign'')] True)])"
proof -
  have f: "user_id cat_foreign \<noteq> id_user alice"
    by (simp add: cat_foreign_def alice_def)
  have g: "user_or_throw (Fulfilled (UserAnswer (Some alice) None)) = Inr (Some alice)"
    "data_or_throw (Fulfilled (PgAnswer (Some cat_foreign) None)) = Inr (Some cat_foreign)"
    "''c-foreign'' \<noteq> []"
    by simp_all
  note t = useTable_per_user_scoping [where u = alice and i = "''c-foreign''"
      and g = "Fulfilled (UserAnswer (Some alice) None)"
      and c = "Fulfilled (PgAnswer (Some cat_foreign) None)"
      and categoryData = cat_foreign and a = "Fulfilled (PgAnswer (Some []) None)"
      and est = edit_initial]
  have 3: "fetchData (Some ''c-foreign'') (Fulfilled (UserAnswer (Some alice) None))
        (Fulfilled (PgAnswer (Some cat_foreign) None)) (Fulfilled (PgAnswer (Some []) None)) edit_initial
     = (edit_initial\<lparr>edit_loading := False,
                     edit_error := ''You do not have permission to edit this category''\<rparr>,
        [AuthGetUser, Query (Select ''categories'' [Eq ''id'' (JString ''c-foreign'')] True)])"
    using t f g by blast
  have 1: "snd (snd (insert_row (Fulfilled (PgAnswer (Some cat_books) None)) ''categories'' (Some alice)
       [(''name'', JString ''Books''), (''user_id'', JString ''u-mallory'')] hook_idle))
     = [Query (Insert ''categories'' [(''name'', JString ''Books''), (''user_id'', JString ''u-alice'')])]"
    by (simp add: insert_row_def alice_def)
  have 2: "snd (snd (remove_row (Fulfilled (PgAnswer () None)) ''categories'' (Some alice) ''c-books'' hook_idle))
     = [Query (Delete ''categories'' [Eq ''id'' (JString ''c-books''), Eq ''user_id'' (JString ''u-alice'')])]"
    by (simp add: remove_row_def alice_def)
  from 1 2 f 3 show ?thesis by simp
qed

section \<open>Deleting a category\<close>

lemma handleDelete_products:
  assumes "i \<noteq> []" and "confirmed" and "count_or_throw pa = Inr (Some n)" and "0 < n"
  shows "handleDelete (Some i) confirmed pa sa da st =
           (st\<lparr>edit_loading := False,
               edit_error := ''Cannot delete category with associated products''\<rparr>,
            [Confirm, Query (SelectCount ''products'' [Eq ''category_id'' (JString i)])])"
  using assms by (simp add: handleDelete_def countPositive_def Let_def)

lemma handleDelete_subcategories:
  assumes "i \<noteq> []" and "confirmed" and "count_or_throw pa = Inr pc" and "\<not> countPositive pc"
    and "count_or_throw sa = Inr (Some n)" and "0 < n"
  shows "handleDelete (Some i) confirmed pa sa da st =
           (st\<lparr>edit_loading := False,
               edit_error := ''Cannot delete category with subcategories''\<rparr>,
            [Confirm, Query (SelectCount ''products'' [Eq ''category_id'' (JString i)]),
             Query (SelectCount ''categories'' [Eq ''parent_id'' (JString i)])])"
  using assms by (simp add: handleDelete_def countPositive_def Let_def)

lemma handleDelete_issued:
  assumes "Query (Delete t fs) \<in> set (snd (handleDelete ident confirmed pa sa da st))"
  shows "confirmed \<and> (\<exists>i. ident = Some i \<and> i \<noteq> [] \<and> t = ''categories'' \<and> fs = [Eq ''id'' (JString i)])
         \<and> (\<exists>pc sc. count_or_throw pa = Inr pc \<and> (pc = None \<or> pc = Some 0)
               \<and> count_or_throw sa = Inr sc \<and> (sc = None \<or> sc = Some 0))"
  using assms
  by (auto simp: handleDelete_def countPositive_def Let_def
      split: option.splits if_splits sum.splits)

lemma handleDelete_navigates:
  assumes "Navigate path r \<in> set (snd (handleDelete ident confirmed pa sa da st))"
  shows "path = ''/categories'' \<and> (\<exists>d. data_or_throw da = Inr d)
         \<and> (\<exists>i. ident = Some i
               \<and> Query (Delete ''categories'' [Eq ''id'' (JString i)])
                   \<in> set (snd (handleDelete ident confirmed pa sa da st)))"
  using assms
  by (auto simp: handleDelete_def countPositive_def Let_def
      split: option.splits if_splits sum.splits)

lemma handleDelete_clean:
  assumes "i \<noteq> []" and "confirmed" and "count_or_throw pa = Inr (Some 0)"
    and "count_or_throw sa = Inr (Some 0)" and "data_or_throw da = Inr d"
  shows "handleDelete (Some i) confirmed pa sa da st =
           (st\<lparr>edit_loading := True\<rparr>,
            [Confirm, Query (SelectCount ''products'' [Eq ''category_id'' (JString i)]),
             Query (SelectCount ''categories'' [Eq ''parent_id'' (JString i)]),
             Query (Delete ''categories'' [Eq ''id'' (JString i)]),
             Navigate ''/categories'' False])"
  using assms by (simp add: handleDelete_def countPositive_def Let_def)

text \<open>
  C9, as the claim states its last part: the delete is issued only when both counts are zero.
  The guard is \<open>count && count > 0\<close>, and the reported count has type \<open>number | null\<close>: when
  the backend answers both counting queries without an error and with a null count, the delete
  is issued.
\<close>

theorem handleDelete_null_counts_delete:
  "count_or_throw (Fulfilled (CountAnswer None None)) = Inr None
   \<and> None \<noteq> Some (0::nat)
   \<and> handleDelete (Some ''c-books'') True (Fulfilled (CountAnswer None None))
       (Fulfilled (CountAnswer None None)) (Fulfilled (PgAnswer () None)) edit_initial
     = (edit_initial\<lparr>edit_loading := True\<rparr>,
        [Confirm, Query (SelectCount ''products'' [Eq ''category_id'' (JString ''c-books'')]),
         Query (SelectCount ''categories'' [Eq ''parent_id'' (JString ''c-books'')]),
         Query (Delete ''categories'' [Eq ''id'' (JString ''c-books'')]),
         Navigate ''/categories'' False])"
  by (simp add: handleDelete_def countPositive_def Let_def)

text \<open>
  C9, amended: \<open>handleDelete\<close> deletes a category only when neither count is reported positive.
  If the reported count of products with \<open>category_id\<close> equal to the category's id is positive,
  or (the product count not being positive) the reported count of categories with \<open>parent_id\<close>
  equal to it is positive, an error message is set and the only queries issued are the counts:
  no delete, so the stored categories are unchanged. A delete is issued only after the user
  confirmed and both counting queries answered without error with a count that is zero or null;
  the user is navigated back to the category list only when that delete was issued and
  answered without error. When both counts are zero and the delete succeeds, the delete is
  issued and the user is navigated to \<open>/categories\<close>.
\<close>

theorem handleDelete_guarded:
  "(i \<noteq> [] \<and> confirmed \<and> count_or_throw pa = Inr (Some n) \<and> 0 < n \<longrightarrow>
      handleDelete (Some i) confirmed pa sa da st =
        (st\<lparr>edit_loading := False,
            edit_error := ''Cannot delete category with associated products''\<rparr>,
         [Confirm, Query (SelectCount ''products'' [Eq ''category_id'' (JString i)])]))
   \<and> (i \<noteq> [] \<and> confirmed \<and> count_or_throw pa = Inr pc \<and> \<not> countPositive pc
        \<and> count_or_throw sa = Inr (Some n) \<and> 0 < n \<longrightarrow>
      handleDelete (Some i) confirmed pa sa da st =
        (st\<lparr>edit_loading := False,
            edit_error := ''Cannot delete category with subcategories''\<rparr>,
         [Confirm, Query (SelectCount ''products'' [Eq ''category_id'' (JString i)]),
          Query (SelectCount ''categories'' [Eq ''parent_id'' (JString i)])]))
   \<and> (\<forall>t fs. Query (Delete t fs) \<in> set (snd (handleDelete ident confirmed pa sa da st)) \<longrightarrow>
        confirmed
        \<and> (\<exists>j. ident = Some j \<and> j \<noteq> [] \<and> t = ''categories'' \<and> fs = [Eq ''id'' (JString j)])
        \<and> (\<exists>pc sc. count_or_throw pa = Inr pc \<and> (pc = None \<or> pc = Some 0)
              \<and> count_or_throw sa = Inr sc \<and> (sc = None \<or> sc = Some 0)))
   \<and> (\<forall>path r. Navigate path r \<in> set (snd (handleDelete ident confirmed pa sa da st)) \<longrightarrow>
        path = ''/categories'' \<and> (\<exists>d. data_or_throw da = Inr d)
        \<and> (\<exists>j. ident = Some j
              \<and> Query (Delete ''categories'' [Eq ''id'' (JString j)])
                  \<in> set (snd (handleDelete ident confirmed pa sa da st))))
   \<and> (i \<noteq> [] \<and> confirmed \<and> count_or_throw pa = Inr (Some 0)
        \<and> count_or_throw sa = Inr (Some 0) \<and> data_or_throw da = Inr d \<longrightarrow>
      handleDelete (Some i) confirmed pa sa da st =
        (st\<lparr>edit_loading := True\<rparr>,
         [Confirm, Query (SelectCount ''products'' [Eq ''category_id'' (JString i)]),
          Query (SelectCount ''categories'' [Eq ''parent_id'' (JString i)]),
          Query (Delete ''categories'' [Eq ''id'' (JString i)]),
          Navigate ''/categories'' False]))"
proof -
  have 1: "i \<noteq> [] \<and> confirmed \<and> count_or_throw pa = Inr (Some n) \<and> 0 < n \<longrightarrow>
      handleDelete (Some i) confirmed pa sa da st =
        (st\<lparr>edit_loading := False,
            edit_error := ''Cannot delete category with associated products''\<rparr>,
         [Confirm, Query (SelectCount ''products'' [Eq ''category_id'' (JString i)])])"
    using handleDelete_products by blast
  have 2: "i \<noteq> [] \<and> confirmed \<and> count_or_throw pa = Inr pc \<and> \<not> countPositive pc
        \<and> count_or_throw sa = Inr (Some n) \<and> 0 < n \<longrightarrow>
      handleDelete (Some i) confirmed pa sa da st =
        (st\<lparr>edit_loading := False,
            edit_error := ''Cannot delete category with subcategories''\<rparr>,
         [Confirm, Query (SelectCount ''products'' [Eq ''category_id'' (JString i)]),
          Query (SelectCount ''categories'' [Eq ''parent_id'' (JString i)])])"
    using handleDelete_subcategories by blast
  have 5: "i \<noteq> [] \<and> confirmed \<and> count_or_throw pa = Inr (Some 0)
        \<and> count_or_throw sa = Inr (Some 0) \<and> data_or_throw da = Inr d \<longrightarrow>
      handleDelete (Some i) confirmed pa sa da st =
        (st\<lparr>edit_loading := True\<rparr>,
         [Confirm, Query (SelectCount ''products'' [Eq ''category_id'' (JString i)]),
          Query (SelectCount ''categories'' [Eq ''parent_id'' (JString i)]),
          Query (Delete ''categories'' [Eq ''id'' (JString i)]),
          Navigate ''/categories'' False])"
    using handleDelete_clean by blast
  have 3: "\<forall>t fs. Query (Delete t fs) \<in> set (snd (handleDelete ident confirmed pa sa da st)) \<longrightarrow>
        confirmed
        \<and> (\<exists>j. ident = Some j \<and> j \<noteq> [] \<and> t = ''categories'' \<and> fs = [Eq ''id'' (JString j)])
        \<and> (\<exists>pc sc. count_or_throw pa = Inr pc \<and> (pc = None \<or> pc = Some 0)
              \<and> count_or_throw sa = Inr sc \<and> (sc = None \<or> sc = Some 0))"
    by (intro allI impI) (rule handleDelete_issued)
  have 4: "\<forall>path r. Navigate path r \<in> set (snd (handleDelete ident confirmed pa sa da st)) \<longrightarrow>
        path = ''/categories'' \<and> (\<exists>d. data_or_throw da = Inr d)
        \<and> (\<exists>j. ident = Some j
              \<and> Query (Delete ''categories'' [Eq ''id'' (JString j)])
                  \<in> set (snd (handleDelete ident confirmed pa sa da st)))"
    by (intro allI impI) (rule handleDelete_navigates)
  from 1 2 3 4 5 show ?thesis by (intro conjI)
qed

theorem handleDelete_guarded_witness:
  "handleDelete (Some ''c-books'') True (Fulfilled (CountAnswer (Some 3) None))
       (Fulfilled (CountAnswer (Some 0) None)) (Fulfilled (PgAnswer () None)) edit_initial
     = (edit_initial\<lparr>edit_loading := False,
                     edit_error := ''Cannot delete category with associated products''\<rparr>,
        [Confirm, Query (SelectCount ''products'' [Eq ''category_id'' (JString ''c-books'')])])
   \<and> handleDelete (Some ''c-books'') True (Fulfilled (CountAnswer (Some 0) None))
       (Fulfilled (CountAnswer (Some 2) None)) (Fulfilled (PgAnswer () None)) edit_initial
     = (edit_initial\<lparr>edit_loading := False,
                     edit_error := ''Cannot delete category with subcategories''\<rparr>,
        [Confirm, Query (SelectCount ''products'' [Eq ''category_id'' (JString ''c-books'')]),
         Query (SelectCount ''categories'' [Eq ''parent_id'' (JString ''c-books'')])])
   \<and> handleDelete (Some ''c-crime'') True (Fulfilled (CountAnswer (Some 0) None))
       (Fulfilled (CountAnswer (Some 0) None)) (Fulfilled (PgAnswer () None)) edit_initial
     = (edit_initial\<lparr>edit_loading := True\<rparr>,
        [Confirm, Query (SelectCount ''products'' [Eq ''category_id'' (JString ''c-crime'')]),
         Query (SelectCount ''categories'' [Eq ''parent_id'' (JString ''c-crime'')]),
         Query (Delete ''categories'' [Eq ''id'' (JString ''c-crime'')]),
         Navigate ''/categories'' False])"
proof -
  have c: "count_or_throw (Fulfilled (CountAnswer (Some 3) None)) = Inr (Some 3)"
    "count_or_throw (Fulfilled (CountAnswer (Some 2) None)) = Inr (Some 2)"
    "count_or_throw (Fulfilled (CountAnswer (Some 0) None)) = Inr (Some 0)"
    "data_or_throw (Fulfilled (PgAnswer () None)) = Inr ()"
    "\<not> countPositive (Some 0)" "''c-books'' \<noteq> []" "''c-crime'' \<noteq> []" "(0::nat) < 3" "(0::nat) < 2"
    by (simp_all add: countPositive_def)
  note a = handleDelete_guarded [where i = "''c-books''" and confirmed = True
      and pa = "Fulfilled (CountAnswer (Some 3) None)" and n = 3
      and sa = "Fulfilled (CountAnswer (Some 0) None)"
      and da = "Fulfilled (PgAnswer () None)" and st = edit_initial]
  note b = handleDelete_guarded [where i = "''c-books''" and confirmed = True
      and pa = "Fulfilled (CountAnswer (Some 0) None)" and n = 2 and pc = "Some 0"
      and sa = "Fulfilled (CountAnswer (Some 2) None)"
      and da = "Fulfilled (PgAnswer () None)" and st = edit_initial]
  note d = handleDelete_guarded [where i = "''c-crime''" and confirmed = True
      and pa = "Fulfilled (CountAnswer (Some 0) None)" and d = "()"
      and sa = "Fulfilled (CountAnswer (Some 0) None)"
      and da = "Fulfilled (PgAnswer () None)" and st = edit_initial]
  show ?thesis
    using a b d c by blast
qed

section \<open>Selectable parents when editing a category\<close>

lemma validParentCategories_excludes:
  "c \<in> set (validParentCategories categoryData allCategories) \<Longrightarrow>
     id_cat c \<noteq> id_cat categoryData \<and> parent_id c \<noteq> Some (id_cat categoryData)"
  by (simp add: validParentCategories_def)

lemma validParentCategories_keeps:
  "c \<in> set allCategories \<Longrightarrow> id_cat c \<noteq> id_cat categoryData \<Longrightarrow>
   parent_id c \<noteq> Some (id_cat categoryData) \<Longrightarrow>
     c \<in> set (validParentCategories categoryData allCategories)"
  by (simp add: validParentCategories_def)

lemma acyclic_no_edges: "acyclic {}"
  by (simp add: acyclic_def)

lemma books_tree_acyclic: "acyclic (parent_edges [cat_books, cat_novels, cat_crime])"
  by (simp add: parent_edges_def cat_books_def cat_novels_def cat_crime_def acyclic_no_edges
      rtrancl_insert)

text \<open>
  C5, at the failing input. The stored categories are Books, its child Novels, and Novels'
  child Crime; the parent graph is acyclic. Editing Books, \<open>fetchData\<close> drops Books and its
  direct child Novels from the selectable parents and keeps the grandchild Crime. Selecting
  Crime and submitting issues \<open>update({ parent_id: 'c-crime', ... }).eq('id', 'c-books')\<close>, the
  only check being that a user is signed in; once the backend has applied it, the parent graph
  has the cycle Books, Crime, Novels, Books.
\<close>

theorem edit_form_offers_descendant:
  "acyclic (parent_edges [cat_books, cat_novels, cat_crime])
   \<and> categories (fst (fetchData (Some ''c-books'') (Fulfilled (UserAnswer (Some alice) None))
        (Fulfilled (PgAnswer (Some cat_books) None))
        (Fulfilled (PgAnswer (Some [cat_novels, cat_crime]) None)) edit_initial))
      = [cat_crime]
   \<and> snd (handleSubmit (Some ''c-books'') (Fulfilled (UserAnswer (Some alice) None))
        (Fulfilled (PgAnswer () None)) ''2024-07-01T10:00:00.000Z''
        (handleChange ''parent_id'' (id_cat cat_crime)
          (fst (fetchData (Some ''c-books'') (Fulfilled (UserAnswer (Some alice) None))
            (Fulfilled (PgAnswer (Some cat_books) None))
            (Fulfilled (PgAnswer (Some [cat_novels, cat_crime]) None)) edit_initial))))
      = [AuthGetUser,
         Query (Update ''categories''
           [(''name'', JString ''Books''), (''parent_id'', JString ''c-crime''),
            (''updated_at'', JString ''2024-07-01T10:00:00.000Z'')]
           [Eq ''id'' (JString ''c-books'')] False),
         Navigate ''/categories'' False]
   \<and> \<not> acyclic (parent_edges (stored_after_update ''2024-07-01T10:00:00.25+00:00''
         (Update ''categories''
           [(''name'', JString ''Books''), (''parent_id'', JString ''c-crime''),
            (''updated_at'', JString ''2024-07-01T10:00:00.000Z'')]
           [Eq ''id'' (JString ''c-books'')] False)
         [cat_books, cat_novels, cat_crime]))"
proof -
  have f: "fst (fetchData (Some ''c-books'') (Fulfilled (UserAnswer (Some alice) None))
        (Fulfilled (PgAnswer (Some cat_books) None))
        (Fulfilled (PgAnswer (Some [cat_novels, cat_crime]) None)) edit_initial)
      = edit_initial\<lparr>category := Some cat_books,
          formData := \<lparr>form_name = ''Books'', form_parent_id = []\<rparr>,
          categories := [cat_crime], edit_loading := False\<rparr>"
    by (simp add: fetchData_def Let_def validParentCategories_def parent_or_empty_def
        cat_books_def cat_novels_def cat_crime_def alice_def)
  have s: "snd (handleSubmit (Some ''c-books'') (Fulfilled (UserAnswer (Some alice) None))
        (Fulfilled (PgAnswer () None)) ''2024-07-01T10:00:00.000Z''
        (handleChange ''parent_id'' (id_cat cat_crime)
          (edit_initial\<lparr>category := Some cat_books,
            formData := \<lparr>form_name = ''Books'', form_parent_id = []\<rparr>,
            categories := [cat_crime], edit_loading := False\<rparr>)))
      = [AuthGetUser,
         Query (Update ''categories''
           [(''name'', JString ''Books''), (''parent_id'', JString ''c-crime''),
            (''updated_at'', JString ''2024-07-01T10:00:00.000Z'')]
           [Eq ''id'' (JString ''c-books'')] False),
         Navigate ''/categories'' False]"
    by (simp add: handleSubmit_def handleChange_def Let_def parent_or_null_def cat_crime_def)
  have e: "parent_edges (stored_after_update ''2024-07-01T10:00:00.25+00:00''
         (Update ''categories''
           [(''name'', JString ''Books''), (''parent_id'', JString ''c-crime''),
            (''updated_at'', JString ''2024-07-01T10:00:00.000Z'')]
           [Eq ''id'' (JString ''c-books'')] False)
         [cat_books, cat_novels, cat_crime])
      = {(''c-books'', ''c-crime''), (''c-novels'', ''c-books''), (''c-crime'', ''c-novels'')}"
    by (simp add: parent_edges_def cat_books_def cat_novels_def cat_crime_def)
  have "(''c-books'', ''c-books'')
      \<in> {(''c-books'', ''c-crime''), (''c-novels'', ''c-books''), (''c-crime'', ''c-novels'')}\<^sup>+"
    by (rule trancl_trans [of _ "''c-crime''"], blast, rule trancl_trans [of _ "''c-novels''"], blast, blast)
  then have c: "\<not> acyclic {(''c-books'', ''c-crime''), (''c-novels'', ''c-books''), (''c-crime'', ''c-novels'')}"
    unfolding acyclic_def by blast
  show ?thesis
    using books_tree_acyclic f s e c by simp
qed

section \<open>Scheduling and concurrency written in the repository\<close>

subsection \<open>The token refresh and the relational queries\<close>







subsection \<open>File storage\<close>


lemma uploadFileWithProgress_effects:
  "snd (snd (uploadFileWithProgress ps rd ua publicUrl file path progress)) =
     ReadFile (file_name file) #
     (case rd of
        ReadFailed e \<Rightarrow> []
      | Loaded \<Rightarrow>
          StorageUpload ''product-files'' path (Some (file_type file)) #
          (case path_or_throw ua of
             Inl e \<Rightarrow> []
           | Inr p \<Rightarrow> [StorageGetPublicUrl ''product-files'' p]))"
  by (simp add: uploadFileWithProgress_def Let_def split: read_result.splits sum.splits)

lemma uploadFileWithProgress_settles:
  "fst (uploadFileWithProgress ps rd ua publicUrl file path progress) \<noteq> NeverSettles"
  by (simp add: uploadFileWithProgress_def Let_def split: read_result.splits sum.splits)



lemma no_file_no_effect:
  "handleFileChange None rnd ps rd ua publicUrl nt pst = (Resolved (), pst, [])"
  "handleFileChange (Some []) rnd ps rd ua publicUrl nt pst = (Resolved (), pst, [])"
  "handleDocumentUpload None rnd ps rd ua publicUrl nt pst = (Resolved (), pst, [])"
  "handleDocumentUpload (Some []) rnd ps rd ua publicUrl nt pst = (Resolved (), pst, [])"
  by (simp_all add: handleFileChange_def handleDocumentUpload_def)

subsection \<open>The simulated progress of the upload button\<close>







lemma handleUpload_without_callback:
  "snd (handleUpload None nt ust) = []"
  by (simp add: handleUpload_def Let_def)

subsection \<open>Calls awaited together\<close>
















subsection \<open>The two utilities\<close>






subsection \<open>The claim\<close>




section \<open>Slugs\<close>

lemma dropEnd_Cons:
  "rev (dropWhile P (rev (x # xs))) =
     (if rev (dropWhile P (rev xs)) = [] \<and> P x then [] else x # rev (dropWhile P (rev xs)))"
  by (auto simp: dropWhile_append dropWhile_eq_Nil_conv)

lemma dropEnd_id:
  "xs = [] \<or> \<not> P (last xs) \<Longrightarrow> rev (dropWhile P (rev xs)) = xs"
  by (cases xs rule: rev_cases) auto

lemma dropWhile_ident:
  "xs = [] \<or> \<not> P (hd xs) \<Longrightarrow> dropWhile P xs = xs"
  by (cases xs) auto

lemma dropEnd_last:
  "rev (dropWhile P (rev xs)) \<noteq> [] \<Longrightarrow> \<not> P (last (rev (dropWhile P (rev xs))))"
  by (metis hd_dropWhile last_rev rev_is_Nil_conv)

lemma dropEnd_hd:
  "rev (dropWhile P (rev xs)) \<noteq> [] \<Longrightarrow> hd (rev (dropWhile P (rev xs))) = hd xs"
  by (cases xs) (auto simp: dropEnd_Cons simp del: rev.simps split: if_splits)

lemma dropEnd_all:
  "list_all Q xs \<Longrightarrow> list_all Q (rev (dropWhile P (rev xs)))"
proof (induction xs)
  case Nil
  then show ?case by simp
next
  case (Cons x xs)
  then show ?case by (simp add: dropEnd_Cons del: rev.simps)
qed

lemma dropWhile_all:
  "list_all Q xs \<Longrightarrow> list_all Q (dropWhile P xs)"
  by (induction xs) auto

lemma singleHyphens_tl: "singleHyphens (x # xs) \<Longrightarrow> singleHyphens xs"
  by (cases xs) auto

lemma singleHyphens_dropWhile: "singleHyphens xs \<Longrightarrow> singleHyphens (dropWhile P xs)"
  by (induction xs) (auto dest: singleHyphens_tl)

lemma singleHyphens_Cons:
  "singleHyphens (x # ys) \<longleftrightarrow>
     (ys = [] \<or> \<not> (x = hyphen \<and> hd ys = hyphen)) \<and> singleHyphens ys"
  by (cases ys) auto

lemma singleHyphens_dropEnd: "singleHyphens xs \<Longrightarrow> singleHyphens (rev (dropWhile P (rev xs)))"
proof (induction xs)
  case Nil
  then show ?case by simp
next
  case (Cons x xs)
  let ?e = "rev (dropWhile P (rev xs))"
  from Cons have ih: "singleHyphens ?e"
    by (simp add: singleHyphens_Cons)
  have h: "?e \<noteq> [] \<Longrightarrow> \<not> (x = hyphen \<and> hd ?e = hyphen)"
  proof -
    assume ne: "?e \<noteq> []"
    then have "xs \<noteq> []" by auto
    with Cons.prems have "\<not> (x = hyphen \<and> hd xs = hyphen)"
      by (simp add: singleHyphens_Cons)
    then show ?thesis using dropEnd_hd [OF ne] by simp
  qed
  show ?case
  proof (cases "?e = [] \<and> P x")
    case True
    then have e0: "rev (dropWhile P (rev (x # xs))) = []"
      unfolding dropEnd_Cons by simp
    show ?thesis unfolding e0 by simp
  next
    case False
    then have eq: "rev (dropWhile P (rev (x # xs))) = x # ?e"
      unfolding dropEnd_Cons by simp
    show ?thesis
      unfolding eq singleHyphens_Cons using ih h by blast
  qed
qed

lemma hyphen_isSeparator: "isSeparator hyphen"
  by (simp add: isSeparator_def)

lemma collapse_hd:
  "collapseSeparators s = c # r \<Longrightarrow> c = hyphen \<Longrightarrow> s \<noteq> [] \<and> isSeparator (hd s)"
  by (cases s) (auto split: if_splits simp: hyphen_isSeparator)

lemma collapse_single: "singleHyphens (collapseSeparators s)"
proof (induction s rule: collapseSeparators.induct)
  case 1
  then show ?case by simp
next
  case (2 c cs)
  show ?case
  proof (cases "isSeparator c")
    case True
    let ?d = "dropWhile isSeparator cs"
    have tl: "singleHyphens (collapseSeparators ?d)" using 2 True by simp
    have "\<And>x r. collapseSeparators ?d = x # r \<Longrightarrow> x \<noteq> hyphen"
    proof
      fix x r assume a: "collapseSeparators ?d = x # r" and b: "x = hyphen"
      from collapse_hd [OF a b] have "?d \<noteq> []" and "isSeparator (hd ?d)" by auto
      then show False using hd_dropWhile by blast
    qed
    then show ?thesis using tl True
      by (cases "collapseSeparators ?d") auto
  next
    case False
    then have "c \<noteq> hyphen" using hyphen_isSeparator by auto
    then show ?thesis using 2 False
      by (cases "collapseSeparators cs") auto
  qed
qed

lemma collapse_chars:
  "list_all Q s \<Longrightarrow> list_all (\<lambda>c. (Q c \<and> \<not> isSeparator c) \<or> c = hyphen) (collapseSeparators s)"
proof (induction s rule: collapseSeparators.induct)
  case 1
  then show ?case by simp
next
  case (2 c cs)
  then show ?case by (auto simp: dropWhile_all)
qed


lemma lowerAlnum_not_separator: "isLowerAlnum c \<Longrightarrow> \<not> isSeparator c"
  by (auto simp: isLowerAlnum_def isSeparator_def isWhiteSpace_def underscore_def hyphen_def)

lemma lowerAlnum_word: "isLowerAlnum c \<Longrightarrow> isWordChar c"
  by (auto simp: isLowerAlnum_def isWordChar_def)

lemma hyphen_not_space: "\<not> isWhiteSpace hyphen"
  by (simp add: isWhiteSpace_def hyphen_def)

lemma word_not_separator_alnum:
  "isWordChar c \<Longrightarrow> \<not> isSeparator c \<Longrightarrow> \<not> isUpperAscii c \<Longrightarrow> isLowerAlnum c"
  by (auto simp: isLowerAlnum_def isSeparator_def isWordChar_def underscore_def isUpperAscii_def)

lemma kept_alnum:
  "\<not> isUpperAscii c \<Longrightarrow> isWordChar c \<or> isWhiteSpace c \<or> c = hyphen \<Longrightarrow>
   \<not> isSeparator c \<Longrightarrow> isLowerAlnum c"
  by (auto simp: isLowerAlnum_def isSeparator_def isWordChar_def underscore_def isUpperAscii_def)

lemma collapse_fixed:
  "list_all (\<lambda>c. isLowerAlnum c \<or> c = hyphen) s \<Longrightarrow> singleHyphens s \<Longrightarrow> collapseSeparators s = s"
proof (induction s)
  case Nil
  then show ?case by simp
next
  case (Cons c cs)
  have tl: "collapseSeparators cs = cs"
    using Cons by (auto dest: singleHyphens_tl)
  show ?case
  proof (cases "c = hyphen")
    case True
    have "dropWhile isSeparator cs = cs"
    proof (cases cs)
      case Nil
      then show ?thesis by simp
    next
      case (Cons d ds)
      with True Cons.prems have "isLowerAlnum d" by auto
      then show ?thesis using Cons lowerAlnum_not_separator by simp
    qed
    then show ?thesis using True tl hyphen_isSeparator by simp
  next
    case False
    with Cons.prems have "isLowerAlnum c" by simp
    then show ?thesis using tl lowerAlnum_not_separator by simp
  qed
qed

lemma lowerAlnum_not_space: "isLowerAlnum c \<Longrightarrow> \<not> isWhiteSpace c"
  by (auto simp: isLowerAlnum_def isWhiteSpace_def)

lemma slugShaped_trim:
  assumes a: "slugShaped s"
  shows "trim s = s"
proof (cases s)
  case Nil
  then show ?thesis by (simp add: trim_def)
next
  case (Cons c cs)
  with a have h: "isLowerAlnum c" and l: "last s \<noteq> hyphen" and
    all: "list_all (\<lambda>c. isLowerAlnum c \<or> c = hyphen) s"
    by (auto simp: slugShaped_def)
  have "last s \<in> set s" using Cons by simp
  with all have "isLowerAlnum (last s) \<or> last s = hyphen"
    by (simp add: list_all_iff)
  with l have e: "\<not> isWhiteSpace (last s)"
    by (simp add: lowerAlnum_not_space)
  have b: "\<not> isWhiteSpace (hd s)"
    using h Cons by (simp add: lowerAlnum_not_space)
  have "dropWhile isWhiteSpace s = s"
    using b by (simp add: dropWhile_ident)
  then show ?thesis
    using e by (simp add: trim_def dropEnd_id)
qed

lemma slugShaped_removeSpecial: "slugShaped s \<Longrightarrow> removeSpecial s = s"
  unfolding removeSpecial_def slugShaped_def
  by (auto simp: list_all_iff lowerAlnum_word intro!: filter_True)

lemma slugShaped_stripHyphens: "slugShaped s \<Longrightarrow> stripHyphens s = s"
  unfolding stripHyphens_def slugShaped_def
  by (cases s) (auto simp: dropEnd_id simp del: rev.simps)

lemma slugShaped_fixed:
  assumes "slugShaped s" and "toLowerCase s = s"
  shows "generateSlug toLowerCase s = s"
  using assms
  by (simp add: generateSlug_def slugShaped_trim slugShaped_removeSpecial
      slugShaped_stripHyphens collapse_fixed slugShaped_def)

lemma stripHyphens_ends:
  assumes "stripHyphens s \<noteq> []"
  shows "hd (stripHyphens s) \<noteq> hyphen \<and> last (stripHyphens s) \<noteq> hyphen"
proof -
  define d where "d = dropWhile (\<lambda>c. c = hyphen) s"
  have r: "stripHyphens s = rev (dropWhile (\<lambda>c. c = hyphen) (rev d))"
    by (simp add: stripHyphens_def d_def)
  have dne: "d \<noteq> []" using assms r by auto
  then have "hd d \<noteq> hyphen" unfolding d_def using hd_dropWhile by blast
  moreover have "hd (stripHyphens s) = hd d"
    unfolding r using assms r dropEnd_hd [of "\<lambda>c. c = hyphen" d] by simp
  moreover have "last (stripHyphens s) \<noteq> hyphen"
    unfolding r using assms r dropEnd_last [of "\<lambda>c. c = hyphen" d] by simp
  ultimately show ?thesis by simp
qed

lemma generateSlug_shape:
  assumes "list_all (\<lambda>c. \<not> isUpperAscii c) (toLowerCase str)"
  shows "slugShaped (generateSlug toLowerCase str)"
proof -
  let ?t = "trim (toLowerCase str)"
  let ?f = "removeSpecial ?t"
  let ?c = "collapseSeparators ?f"
  let ?r = "stripHyphens ?c"
  have t: "list_all (\<lambda>c. \<not> isUpperAscii c) ?t"
    using assms by (simp add: trim_def dropEnd_all dropWhile_all)
  then have f: "list_all (\<lambda>c. \<not> isUpperAscii c \<and> (isWordChar c \<or> isWhiteSpace c \<or> c = hyphen)) ?f"
    by (auto simp: removeSpecial_def list_all_iff)
  have "list_all (\<lambda>c. ((\<not> isUpperAscii c \<and> (isWordChar c \<or> isWhiteSpace c \<or> c = hyphen)) \<and> \<not> isSeparator c) \<or> c = hyphen) ?c"
    by (rule collapse_chars [OF f])
  then have c: "list_all (\<lambda>c. isLowerAlnum c \<or> c = hyphen) ?c"
    using kept_alnum by (simp add: list_all_iff) blast
  have chars: "list_all (\<lambda>c. isLowerAlnum c \<or> c = hyphen) ?r"
    using c by (simp add: stripHyphens_def dropEnd_all dropWhile_all)
  have single: "singleHyphens ?r"
    by (simp add: stripHyphens_def collapse_single singleHyphens_dropEnd singleHyphens_dropWhile)
  have ends: "?r \<noteq> [] \<Longrightarrow> hd ?r \<noteq> hyphen \<and> last ?r \<noteq> hyphen"
    by (rule stripHyphens_ends)
  show ?thesis
    unfolding generateSlug_def slugShaped_def
    using chars single ends by (cases ?r) auto
qed

text \<open>
  C10: \<open>generateSlug\<close> is idempotent, and its output consists of lowercase word characters
  (letters and digits; no underscore is left) and single hyphens, with no hyphen at the start
  or at the end. This holds for every case mapping \<open>toLowerCase\<close> whose result has no code
  unit in \<open>A-Z\<close> and which leaves a string of lowercase letters, digits and hyphens
  unchanged, as the built-in one does.
\<close>

theorem generateSlug_idempotent:
  assumes noUpper: "\<forall>s. list_all (\<lambda>c. \<not> isUpperAscii c) (toLowerCase s)"
    and fixes_lower: "\<forall>s. list_all (\<lambda>c. isLowerAlnum c \<or> c = hyphen) s \<longrightarrow> toLowerCase s = s"
  shows "generateSlug toLowerCase (generateSlug toLowerCase str) = generateSlug toLowerCase str
    \<and> slugShaped (generateSlug toLowerCase str)"
proof -
  have sh: "slugShaped (generateSlug toLowerCase str)"
    using noUpper by (simp add: generateSlug_shape)
  then have "toLowerCase (generateSlug toLowerCase str) = generateSlug toLowerCase str"
    using fixes_lower by (simp add: slugShaped_def)
  with sh show ?thesis by (simp add: slugShaped_fixed)
qed

lemma toLowerCase_ascii_noUpper: "list_all (\<lambda>c. \<not> isUpperAscii c) (toLowerCase_ascii s)"
  by (induction s) (auto simp: toLowerCase_ascii_def isUpperAscii_def)

lemma toLowerCase_ascii_fixes:
  "list_all (\<lambda>c. isLowerAlnum c \<or> c = hyphen) s \<Longrightarrow> toLowerCase_ascii s = s"
  by (induction s) (auto simp: toLowerCase_ascii_def isUpperAscii_def isLowerAlnum_def hyphen_def)

theorem generateSlug_idempotent_witness:
  "generateSlug toLowerCase_ascii [0x20, 0x48, 0x65, 0x21, 0x20, 0x5F, 0x2D, 0x57, 0x2D, 0x20] = [0x68, 0x65, 0x2D, 0x77]
   \<and> generateSlug toLowerCase_ascii [0x68, 0x65, 0x2D, 0x77] = [0x68, 0x65, 0x2D, 0x77]
   \<and> slugShaped [0x68, 0x65, 0x2D, 0x77]"
proof -
  have v: "generateSlug toLowerCase_ascii [0x20, 0x48, 0x65, 0x21, 0x20, 0x5F, 0x2D, 0x57, 0x2D, 0x20] = [0x68, 0x65, 0x2D, 0x77]"
    by (simp add: generateSlug_def toLowerCase_ascii_def trim_def removeSpecial_def stripHyphens_def
        isUpperAscii_def isWhiteSpace_def isWordChar_def isSeparator_def hyphen_def underscore_def)
  have "generateSlug toLowerCase_ascii (generateSlug toLowerCase_ascii [0x20, 0x48, 0x65, 0x21, 0x20, 0x5F, 0x2D, 0x57, 0x2D, 0x20])
      = generateSlug toLowerCase_ascii [0x20, 0x48, 0x65, 0x21, 0x20, 0x5F, 0x2D, 0x57, 0x2D, 0x20]
    \<and> slugShaped (generateSlug toLowerCase_ascii [0x20, 0x48, 0x65, 0x21, 0x20, 0x5F, 0x2D, 0x57, 0x2D, 0x20])"
    by (rule generateSlug_idempotent) (simp_all add: toLowerCase_ascii_noUpper toLowerCase_ascii_fixes)
  then show ?thesis unfolding v by simp
qed

section \<open>Product safety metadata\<close>

lemma add_column_well_formed:
  "well_formed t \<Longrightarrow> well_formed (add_column_if_not_exists col t)"
  by (auto simp: well_formed_def add_column_if_not_exists_def list_all_iff)

lemma add_column_keeps:
  "c \<in> set (columns t) \<Longrightarrow> c \<in> set (columns (add_column_if_not_exists col t))"
  by (simp add: add_column_if_not_exists_def)

lemma add_column_names:
  "set (map col_name (columns (add_column_if_not_exists col t)))
     = insert (col_name col) (set (map col_name (columns t)))"
  by (auto simp: add_column_if_not_exists_def)

lemma add_column_new:
  "col_name col \<notin> set (map col_name (columns t)) \<Longrightarrow>
     col \<in> set (columns (add_column_if_not_exists col t))"
  by (simp add: add_column_if_not_exists_def)

lemma cell_append_absent:
  "n \<notin> set (map fst r) \<Longrightarrow> cell (r @ [(n, v)]) n = v"
  by (induction r) (auto simp: cell_def)

lemma cell_append_other:
  "n \<noteq> m \<Longrightarrow> cell (r @ [(m, v)]) n = cell r n"
  by (induction r) (auto simp: cell_def)

lemma add_column_default:
  assumes "well_formed t" and "col_name col \<notin> set (map col_name (columns t))"
  shows "list_all (\<lambda>r. cell r (col_name col) = col_default col)
           (rows (add_column_if_not_exists col t))"
  using assms
  by (auto simp: add_column_if_not_exists_def well_formed_def list_all_iff
      intro!: cell_append_absent)

lemma add_column_other_cells:
  assumes "list_all (\<lambda>r. cell r n = v) (rows t)" and "col_name col \<noteq> n"
  shows "list_all (\<lambda>r. cell r n = v) (rows (add_column_if_not_exists col t))"
  using assms
  by (auto simp: add_column_if_not_exists_def list_all_iff cell_append_other)

lemma foldl_add_well_formed:
  "well_formed t \<Longrightarrow> well_formed (foldl (\<lambda>t' col. add_column_if_not_exists col t') t cols)"
  by (induction cols arbitrary: t) (simp_all add: add_column_well_formed)

lemma foldl_add_keeps:
  "c \<in> set (columns t) \<Longrightarrow>
     c \<in> set (columns (foldl (\<lambda>t' col. add_column_if_not_exists col t') t cols))"
  by (induction cols arbitrary: t) (simp_all add: add_column_keeps)

lemma foldl_add_names:
  "set (map col_name (columns (foldl (\<lambda>t' col. add_column_if_not_exists col t') t cols)))
     = set (map col_name cols) \<union> set (map col_name (columns t))"
  by (induction cols arbitrary: t) (auto simp: add_column_names simp del: set_map)

lemma foldl_add_other_cells:
  assumes "list_all (\<lambda>r. cell r n = v) (rows t)" and "n \<notin> set (map col_name cols)"
  shows "list_all (\<lambda>r. cell r n = v)
           (rows (foldl (\<lambda>t' col. add_column_if_not_exists col t') t cols))"
  using assms
  by (induction cols arbitrary: t) (auto simp: add_column_other_cells)

text \<open>The table after the first four columns of the migration have been added.\<close>

lemma migration_split:
  "add_gpsr_fields_to_products t =
     foldl (\<lambda>t' col. add_column_if_not_exists col t')
       (add_column_if_not_exists gpsr_moderation_status_column
         (foldl (\<lambda>t' col. add_column_if_not_exists col t') t (take 4 gpsr_columns)))
       (drop 5 gpsr_columns)"
  by (simp add: add_gpsr_fields_to_products_def gpsr_columns_def)

lemma migration_well_formed:
  "well_formed t \<Longrightarrow> well_formed (add_gpsr_fields_to_products t)"
  by (simp add: add_gpsr_fields_to_products_def foldl_add_well_formed)

lemma migration_column_names:
  "set (map col_name gpsr_columns)
     \<subseteq> set (map col_name (columns (add_gpsr_fields_to_products t)))"
  unfolding add_gpsr_fields_to_products_def foldl_add_names by blast

lemma migration_adds_status_column:
  assumes "''gpsr_moderation_status'' \<notin> set (map col_name (columns t))"
  shows "gpsr_moderation_status_column \<in> set (columns (add_gpsr_fields_to_products t))"
proof -
  let ?t4 = "foldl (\<lambda>t' col. add_column_if_not_exists col t') t (take 4 gpsr_columns)"
  have "col_name gpsr_moderation_status_column \<notin> set (map col_name (columns ?t4))"
    unfolding foldl_add_names using assms
    by (simp add: gpsr_columns_def gpsr_moderation_status_column_def)
  then have "gpsr_moderation_status_column
      \<in> set (columns (add_column_if_not_exists gpsr_moderation_status_column ?t4))"
    by (rule add_column_new)
  then show ?thesis
    unfolding migration_split by (rule foldl_add_keeps)
qed

lemma migration_backfills_pending:
  assumes "well_formed t" and "''gpsr_moderation_status'' \<notin> set (map col_name (columns t))"
  shows "list_all (\<lambda>r. cell r ''gpsr_moderation_status'' = Text ''pending'')
           (rows (add_gpsr_fields_to_products t))"
proof -
  let ?t4 = "foldl (\<lambda>t' col. add_column_if_not_exists col t') t (take 4 gpsr_columns)"
  have wf: "well_formed ?t4"
    using assms(1) by (rule foldl_add_well_formed)
  have n: "col_name gpsr_moderation_status_column \<notin> set (map col_name (columns ?t4))"
    unfolding foldl_add_names using assms(2)
    by (simp add: gpsr_columns_def gpsr_moderation_status_column_def)
  have "list_all (\<lambda>r. cell r (col_name gpsr_moderation_status_column)
                        = col_default gpsr_moderation_status_column)
          (rows (add_column_if_not_exists gpsr_moderation_status_column ?t4))"
    using wf n by (rule add_column_default)
  then have "list_all (\<lambda>r. cell r ''gpsr_moderation_status'' = Text ''pending'')
          (rows (add_column_if_not_exists gpsr_moderation_status_column ?t4))"
    by (simp add: gpsr_moderation_status_column_def)
  then show ?thesis
    unfolding migration_split
    by (rule foldl_add_other_cells) (simp add: gpsr_columns_def)
qed

lemma status_column_enforces:
  assumes "gpsr_moderation_status_column \<in> set cols" and "row_ok cols r"
  shows "moderation_status_ok r"
proof -
  from assms have "satisfies gpsr_moderation_status_column
      (cell r (col_name gpsr_moderation_status_column))"
    by (simp add: row_ok_def list_all_iff)
  then show ?thesis
    by (auto simp: satisfies_def gpsr_moderation_status_column_def moderation_status_ok_def)
qed

lemma map_fst_new_row: "map fst (new_row cols supplied) = map col_name cols"
  by (simp add: new_row_def comp_def)

lemma map_fst_set_cells: "map fst (set_cells supplied r) = map fst r"
  by (induction r) (auto simp: set_cells_def)

lemma execute_columns: "columns (execute s t) = columns t"
  by (cases s) (auto simp: sql_insert_def sql_update_def Let_def split: option.splits if_splits)

lemma execute_invariant:
  assumes "gpsr_invariant t"
  shows "gpsr_invariant (execute s t)"
proof (cases s)
  case (InsertRow supplied)
  show ?thesis
  proof (cases "row_ok (columns t) (new_row (columns t) supplied)")
    case True
    from assms have c: "gpsr_moderation_status_column \<in> set (columns t)"
      by (simp add: gpsr_invariant_def)
    have "moderation_status_ok (new_row (columns t) supplied)"
      by (rule status_column_enforces [OF c True])
    then show ?thesis
      using assms InsertRow True
      by (simp add: gpsr_invariant_def sql_insert_def Let_def well_formed_def map_fst_new_row)
  next
    case False
    then show ?thesis
      using assms InsertRow by (simp add: sql_insert_def Let_def)
  qed
next
  case (UpdateRows sel supplied)
  let ?rs = "map (\<lambda>r. if sel r then set_cells supplied r else r) (rows t)"
  show ?thesis
  proof (cases "list_all (row_ok (columns t)) ?rs")
    case True
    from assms have c: "gpsr_moderation_status_column \<in> set (columns t)"
      by (simp add: gpsr_invariant_def)
    have "moderation_status_ok r" if "r \<in> set ?rs" for r
    proof -
      from that True have "row_ok (columns t) r"
        unfolding list_all_iff by blast
      then show ?thesis by (rule status_column_enforces [OF c])
    qed
    then have "list_all moderation_status_ok ?rs"
      unfolding list_all_iff by blast
    moreover have "list_all (\<lambda>r. map fst r = map col_name (columns t)) ?rs"
      using assms
      by (auto simp: gpsr_invariant_def well_formed_def list_all_iff map_fst_set_cells)
    ultimately show ?thesis
      using assms UpdateRows True
      by (simp add: gpsr_invariant_def sql_update_def Let_def well_formed_def)
  next
    case False
    then show ?thesis
      using assms UpdateRows by (simp add: sql_update_def Let_def)
  qed
qed

lemma run_invariant: "gpsr_invariant t \<Longrightarrow> gpsr_invariant (run stmts t)"
  unfolding run_def by (induction stmts arbitrary: t) (simp_all add: execute_invariant)

lemma migration_invariant:
  assumes "well_formed t" and "''gpsr_moderation_status'' \<notin> set (map col_name (columns t))"
  shows "gpsr_invariant (add_gpsr_fields_to_products t)"
proof -
  have "list_all moderation_status_ok (rows (add_gpsr_fields_to_products t))"
    using migration_backfills_pending [OF assms]
    by (simp add: list_all_iff moderation_status_ok_def moderation_values_def)
  then show ?thesis
    using assms migration_well_formed migration_adds_status_column migration_column_names
    by (simp add: gpsr_invariant_def)
qed

lemma invariant_carries:
  assumes "gpsr_invariant t"
  shows "list_all (\<lambda>r. carries_gpsr_columns r \<and> moderation_status_ok r) (rows t)"
proof -
  have "carries_gpsr_columns r" if "r \<in> set (rows t)" for r
  proof -
    from that assms have "map fst r = map col_name (columns t)"
      by (simp add: gpsr_invariant_def well_formed_def list_all_iff)
    then show ?thesis
      using assms by (auto simp: carries_gpsr_columns_def gpsr_invariant_def list_all_iff)
  qed
  then show ?thesis
    using assms by (simp add: gpsr_invariant_def list_all_iff)
qed

lemma map_of_named:
  assumes "col \<in> set cols" and "col_name col = n"
    and "\<forall>c\<in>set cols. col_name c = n \<longrightarrow> c = col"
  shows "map_of (map (\<lambda>c. (col_name c, g c)) cols) n = Some (g col)"
  using assms
proof (induction cols)
  case Nil
  then show ?case by simp
next
  case (Cons c cols)
  show ?case
  proof (cases "col_name c = n")
    case True
    with Cons.prems(3) have "c = col" by simp
    with True show ?thesis by simp
  next
    case False
    with Cons.prems(1,2) have m: "col \<in> set cols" by auto
    from Cons.prems(3) have u: "\<forall>c\<in>set cols. col_name c = n \<longrightarrow> c = col" by simp
    have "map_of (map (\<lambda>c. (col_name c, g c)) cols) n = Some (g col)"
      by (rule Cons.IH [OF m Cons.prems(2) u])
    with False show ?thesis by simp
  qed
qed

lemma new_row_default:
  assumes "map_of supplied n = None" and "col \<in> set cols" and "col_name col = n"
    and "\<forall>c \<in> set cols. col_name c = n \<longrightarrow> c = col"
  shows "cell (new_row cols supplied) n = col_default col"
proof -
  have "map_of (new_row cols supplied) n
      = Some (case map_of supplied (col_name col) of None \<Rightarrow> col_default col | Some v \<Rightarrow> v)"
    unfolding new_row_def by (rule map_of_named [OF assms(2,3,4)])
  then show ?thesis
    using assms(1,3) by (simp add: cell_def)
qed

lemma add_column_origin:
  "c \<in> set (columns (add_column_if_not_exists col t)) \<Longrightarrow> c \<in> set (columns t) \<or> c = col"
  by (auto simp: add_column_if_not_exists_def split: if_splits)

lemma foldl_add_origin:
  "c \<in> set (columns (foldl (\<lambda>t' col. add_column_if_not_exists col t') t cols)) \<Longrightarrow>
     c \<in> set (columns t) \<or> c \<in> set cols"
proof (induction cols arbitrary: t)
  case Nil
  then show ?case by simp
next
  case (Cons a cols)
  then have "c \<in> set (columns (add_column_if_not_exists a t)) \<or> c \<in> set cols"
    by simp
  then show ?case using add_column_origin by fastforce
qed

lemma migration_status_column_unique:
  assumes "''gpsr_moderation_status'' \<notin> set (map col_name (columns t))"
    and "c \<in> set (columns (add_gpsr_fields_to_products t))"
    and "col_name c = ''gpsr_moderation_status''"
  shows "c = gpsr_moderation_status_column"
proof -
  from assms(2) have "c \<in> set (columns t) \<or> c \<in> set gpsr_columns"
    unfolding add_gpsr_fields_to_products_def by (rule foldl_add_origin)
  moreover have "c \<notin> set (columns t)"
  proof
    assume "c \<in> set (columns t)"
    then have "col_name c \<in> set (map col_name (columns t))" by simp
    with assms(1,3) show False by simp
  qed
  ultimately have "c \<in> set gpsr_columns" by simp
  with assms(3) show ?thesis
    by (auto simp: gpsr_columns_def)
qed

lemma run_columns: "columns (run stmts t) = columns t"
  unfolding run_def by (induction stmts arbitrary: t) (simp_all add: execute_columns)

lemma insert_takes_default:
  assumes "''gpsr_moderation_status'' \<notin> set (map col_name (columns t))"
    and "map_of supplied ''gpsr_moderation_status'' = None"
    and "sql_insert supplied (run stmts (add_gpsr_fields_to_products t)) = Some t'"
  shows "cell (last (rows t')) ''gpsr_moderation_status'' = Text ''pending''"
proof -
  let ?cols = "columns (add_gpsr_fields_to_products t)"
  have cols: "columns (run stmts (add_gpsr_fields_to_products t)) = ?cols"
    by (rule run_columns)
  have "cell (new_row ?cols supplied) ''gpsr_moderation_status''
      = col_default gpsr_moderation_status_column"
  proof (rule new_row_default)
    show "map_of supplied ''gpsr_moderation_status'' = None" by (rule assms(2))
    show "gpsr_moderation_status_column \<in> set ?cols"
      using assms(1) by (rule migration_adds_status_column)
    show "col_name gpsr_moderation_status_column = ''gpsr_moderation_status''"
      by (simp add: gpsr_moderation_status_column_def)
    show "\<forall>c\<in>set ?cols. col_name c = ''gpsr_moderation_status'' \<longrightarrow> c = gpsr_moderation_status_column"
      using migration_status_column_unique [OF assms(1)] by blast
  qed
  moreover have "last (rows t') = new_row ?cols supplied"
    using assms(3) cols by (auto simp: sql_insert_def Let_def split: if_splits)
  ultimately show ?thesis
    by (simp add: gpsr_moderation_status_column_def)
qed

lemma moderation_literal_values: "moderation_literal m \<in> set moderation_values"
  by (cases m) (simp_all add: moderation_values_def)

lemma moderation_exhaustive:
  "moderation_status (p :: Product) \<in> {None, Some ModerationPending, Some ModerationApproved, Some ModerationRejected}"
proof (cases "moderation_status p")
  case None
  then show ?thesis by simp
next
  case (Some m)
  then show ?thesis by (cases m) simp_all
qed

text \<open>
  C7: the compliance metadata is attached to the product record. From a \<open>products\<close> table
  that does not yet have a column \<open>gpsr_moderation_status\<close> (as the table the repository's
  migrations create), after the migration and after any run of insertions and updates, every
  row carries the nine columns of the migration, and its \<open>gpsr_moderation_status\<close> is a
  non-null text, one of \<open>pending\<close>, \<open>approved\<close> and \<open>rejected\<close>; a row inserted without
  a value for it has \<open>pending\<close>. The client-side \<open>Product\<close> type has the compliance fields,
  and its \<open>moderation_status\<close>, when present, is one of the same three literals.
\<close>

theorem gpsr_moderation_status_constrained:
  assumes "well_formed t" and "''gpsr_moderation_status'' \<notin> set (map col_name (columns t))"
  shows "list_all (\<lambda>r. carries_gpsr_columns r \<and> moderation_status_ok r)
           (rows (run stmts (add_gpsr_fields_to_products t)))
         \<and> (\<forall>supplied t'. map_of supplied ''gpsr_moderation_status'' = None
               \<and> sql_insert supplied (run stmts (add_gpsr_fields_to_products t)) = Some t' \<longrightarrow>
               cell (last (rows t')) ''gpsr_moderation_status'' = Text ''pending'')
         \<and> moderation_literal m \<in> set moderation_values
         \<and> set (map moderation_literal [ModerationPending, ModerationApproved, ModerationRejected]) = set moderation_values
         \<and> moderation_status (p :: Product) \<in> {None, Some ModerationPending, Some ModerationApproved, Some ModerationRejected}"
proof -
  have "gpsr_invariant (run stmts (add_gpsr_fields_to_products t))"
    using assms by (simp add: migration_invariant run_invariant)
  then have 1: "list_all (\<lambda>r. carries_gpsr_columns r \<and> moderation_status_ok r)
           (rows (run stmts (add_gpsr_fields_to_products t)))"
    by (rule invariant_carries)
  have 2: "\<forall>supplied t'. map_of supplied ''gpsr_moderation_status'' = None
               \<and> sql_insert supplied (run stmts (add_gpsr_fields_to_products t)) = Some t' \<longrightarrow>
               cell (last (rows t')) ''gpsr_moderation_status'' = Text ''pending''"
    using insert_takes_default [OF assms(2)] by blast
  have 4: "set (map moderation_literal [ModerationPending, ModerationApproved, ModerationRejected]) = set moderation_values"
    by (simp add: moderation_values_def)
  from 1 2 4 moderation_literal_values moderation_exhaustive show ?thesis
    by (intro conjI)
qed

theorem gpsr_moderation_status_constrained_witness:
  "well_formed products_before
   \<and> ''gpsr_moderation_status'' \<notin> set (map col_name (columns products_before))
   \<and> map (\<lambda>r. cell r ''gpsr_moderation_status'')
         (rows (run [insert_chair, approve_lamp, bogus_status]
                 (add_gpsr_fields_to_products products_before)))
       = [Text ''approved'', Text ''pending'']
   \<and> list_all (\<lambda>r. carries_gpsr_columns r \<and> moderation_status_ok r)
         (rows (run [insert_chair, approve_lamp, bogus_status]
                 (add_gpsr_fields_to_products products_before)))"
proof -
  have w: "well_formed products_before"
    by (simp add: well_formed_def products_before_def products_created_def product_row_lamp_def)
  have n: "''gpsr_moderation_status'' \<notin> set (map col_name (columns products_before))"
    by (simp add: products_before_def products_created_def)
  have v: "map (\<lambda>r. cell r ''gpsr_moderation_status'')
         (rows (run [insert_chair, approve_lamp, bogus_status]
                 (add_gpsr_fields_to_products products_before)))
       = [Text ''approved'', Text ''pending'']"
    by (simp add: run_def insert_chair_def approve_lamp_def bogus_status_def
        add_gpsr_fields_to_products_def gpsr_columns_def gpsr_moderation_status_column_def
        moderation_values_def add_column_if_not_exists_def products_before_def
        products_created_def product_row_lamp_def sql_insert_def sql_update_def new_row_def
        row_ok_def satisfies_def cell_def set_cells_def Let_def)
  from gpsr_moderation_status_constrained [OF w n] w n v show ?thesis
    by simp
qed

section \<open>The category tree\<close>

subsection \<open>The two passes\<close>

lemma map_set_new: "k \<notin> set (map fst m) \<Longrightarrow> map_set k v m = m @ [(k, v)]"
  by (induction m) auto

lemma first_pass_from:
  "distinct (map fst m @ map id_cat cats) \<Longrightarrow>
     foldl (\<lambda>m c. map_set (id_cat c) \<lparr>node_category = c, children = []\<rparr> m) m cats
       = m @ map (\<lambda>c. (id_cat c, \<lparr>node_category = c, children = []\<rparr>)) cats"
proof (induction cats arbitrary: m)
  case Nil
  then show ?case by simp
next
  case (Cons c cats)
  from Cons.prems have n: "id_cat c \<notin> set (map fst m)" by auto
  from Cons.prems have d: "distinct (map fst (m @ [(id_cat c, \<lparr>node_category = c, children = []\<rparr>)])
      @ map id_cat cats)"
    by auto
  show ?case
    using Cons.IH [OF d] by (simp add: map_set_new [OF n])
qed

lemma first_pass_distinct:
  "distinct (map id_cat cats) \<Longrightarrow>
     first_pass cats = map (\<lambda>c. (id_cat c, \<lparr>node_category = c, children = []\<rparr>)) cats"
  using first_pass_from [of "[]" cats] by (simp add: first_pass_def)

text \<open>
  The second pass from an arbitrary store and result: each entry that is attached is appended
  to the children of its parent, each other entry to the result.
\<close>

lemma push_child_keys: "map fst (push_child p k m) = map fst m"
  by (induction m) (auto simp: push_child_def)

lemma attach_effective:
  "attach (m, r) (k, n) =
     (case effective_parent (set (map fst m)) (node_category n) of
        None \<Rightarrow> (m, r @ [k])
      | Some p \<Rightarrow> (push_child p k m, r))"
  by (simp add: attach_def effective_parent_def map_has_def split: option.splits)

lemma second_pass_from:
  "foldl attach (m, r) es =
     (map (\<lambda>(k', n). (k', n\<lparr>children := children n @
              map fst (filter (\<lambda>e. effective_parent (set (map fst m)) (node_category (snd e))
                                     = Some k') es)\<rparr>)) m,
      r @ map fst (filter (\<lambda>e. effective_parent (set (map fst m)) (node_category (snd e))
                                 = None) es))"
proof (induction es arbitrary: m r)
  case Nil
  show ?case by (simp add: case_prod_unfold)
next
  case (Cons e es)
  obtain k n where e: "e = (k, n)" by (cases e)
  show ?case
  proof (cases "effective_parent (set (map fst m)) (node_category n)")
    case None
    then show ?thesis
      using Cons.IH [of m "r @ [k]"] by (simp add: e attach_effective)
  next
    case (Some p)
    have keys: "set (map fst (push_child p k m)) = set (map fst m)"
      by (simp only: push_child_keys)
    have step: "attach (m, r) e = (push_child p k m, r)"
      using Some by (simp add: e attach_effective)
    show ?thesis
      unfolding foldl_Cons step Cons.IH keys
      using Some
      by (auto simp: e push_child_def case_prod_unfold)
  qed
qed

lemma effective_parent_Some:
  "effective_parent (id_cat ` set cats) d = Some k \<longleftrightarrow> attached cats d \<and> parent_id d = Some k"
  by (auto simp: effective_parent_def attached_def split: option.splits)

lemma effective_parent_None:
  "effective_parent (id_cat ` set cats) d = None \<longleftrightarrow> \<not> attached cats d"
  by (auto simp: effective_parent_def attached_def split: option.splits)

lemma buildCategoryTree_distinct:
  assumes "distinct (map id_cat cats)"
  shows "buildCategoryTree cats =
           (map id_cat (rootsOf cats),
            map (\<lambda>c. (id_cat c, \<lparr>node_category = c,
                                  children = map id_cat (childrenOf cats c)\<rparr>)) cats)"
proof -
  let ?m0 = "map (\<lambda>c. (id_cat c, \<lparr>node_category = c, children = []\<rparr>)) cats"
  have fp: "first_pass cats = ?m0"
    using assms by (rule first_pass_distinct)
  have keys: "set (map fst ?m0) = id_cat ` set cats"
    by (simp add: comp_def)
  have kids: "map fst (filter (\<lambda>e. effective_parent (id_cat ` set cats) (node_category (snd e)) = Some k) ?m0)
      = map id_cat (filter (\<lambda>d. attached cats d \<and> parent_id d = Some k) cats)" for k
    by (simp add: filter_map comp_def effective_parent_Some)
  have roots: "map fst (filter (\<lambda>e. effective_parent (id_cat ` set cats) (node_category (snd e)) = None) ?m0)
      = map id_cat (rootsOf cats)"
    by (simp add: filter_map comp_def effective_parent_None rootsOf_def)
  have "foldl attach (?m0, []) ?m0 =
      (map (\<lambda>c. (id_cat c, \<lparr>node_category = c, children = map id_cat (childrenOf cats c)\<rparr>)) cats,
       map id_cat (rootsOf cats))"
    unfolding second_pass_from keys kids roots
    by (simp add: childrenOf_def comp_def)
  then show ?thesis
    by (simp add: buildCategoryTree_def fp)
qed

lemma map_of_entries:
  assumes "distinct (map f xs)" and "x \<in> set xs"
  shows "map_of (map (\<lambda>x. (f x, g x)) xs) (f x) = Some (g x)"
  using assms by (induction xs) (auto simp: image_iff)

lemma childrenOf_subset: "set (childrenOf cats c) \<subseteq> set cats"
  by (simp add: childrenOf_def)

lemma rootsOf_subset: "set (rootsOf cats) \<subseteq> set cats"
  by (simp add: rootsOf_def)

lemma unfold_node_grow:
  assumes d: "distinct (map id_cat cats)" and c: "c \<in> set cats"
  shows "unfold_node depth (snd (buildCategoryTree cats)) (id_cat c) = grow depth cats c"
  using c
proof (induction depth arbitrary: c)
  case 0
  show ?case by simp
next
  case (Suc depth)
  let ?m = "snd (buildCategoryTree cats)"
  have m: "map_of ?m (id_cat c)
      = Some \<lparr>node_category = c, children = map id_cat (childrenOf cats c)\<rparr>"
    unfolding buildCategoryTree_distinct [OF d] snd_conv
    using d Suc.prems by (rule map_of_entries)
  have "\<forall>x\<in>set (childrenOf cats c). unfold_node depth ?m (id_cat x) = grow depth cats x"
    using Suc.IH childrenOf_subset by blast
  then have eq: "map (unfold_node depth ?m) (map id_cat (childrenOf cats c))
      = map (grow depth cats) (childrenOf cats c)"
    by simp
  have "unfold_node (Suc depth) ?m (id_cat c)
      = map_option (Node c)
          (those (map (unfold_node depth ?m) (map id_cat (childrenOf cats c))))"
    by (simp add: m del: map_map)
  then show ?case
    unfolding eq by simp
qed

lemma forest_pair: "forest depth (r, m) = those (map (unfold_node depth m) r)"
  by (simp add: forest_def)

lemma forest_grow:
  assumes "distinct (map id_cat cats)"
  shows "forest depth (buildCategoryTree cats) = those (map (grow depth cats) (rootsOf cats))"
proof -
  let ?b = "buildCategoryTree cats"
  have b: "?b = (map id_cat (rootsOf cats), snd ?b)"
    by (simp add: buildCategoryTree_distinct [OF assms])
  have "\<forall>x\<in>set (rootsOf cats). unfold_node depth (snd ?b) (id_cat x) = grow depth cats x"
    using unfold_node_grow [OF assms] rootsOf_subset by blast
  then have eq: "map (unfold_node depth (snd ?b)) (map id_cat (rootsOf cats))
      = map (grow depth cats) (rootsOf cats)"
    by simp
  have "forest depth ?b = forest depth (map id_cat (rootsOf cats), snd ?b)"
    by (rule arg_cong [OF b])
  then show ?thesis
    unfolding forest_pair eq .
qed

subsection \<open>The forest, generation by generation\<close>

lemma generation_Nil: "generation cats j [] = []"
  by (induction j) simp_all

lemma generation_append:
  "generation cats j (xs @ ys) = generation cats j xs @ generation cats j ys"
  by (induction j arbitrary: xs ys) simp_all

lemma generation_concat:
  "generation cats j (concat xss) = concat (map (generation cats j) xss)"
  by (induction xss) (simp_all add: generation_append generation_Nil)

lemma generation_back:
  "generation cats (Suc j) xs = concat (map (childrenOf cats) (generation cats j xs))"
  by (induction j arbitrary: xs) simp_all

lemma those_map_sum:
  fixes h :: "'a \<Rightarrow> 'c multiset"
  assumes "\<forall>x\<in>set xs. \<exists>t. f x = Some t \<and> g t = h x"
  shows "\<exists>ts. those (map f xs) = Some ts \<and> sum_list (map g ts) = sum_list (map h xs)"
  using assms
proof (induction xs)
  case Nil
  then show ?case by simp
next
  case (Cons x xs)
  then obtain t where t: "f x = Some t" "g t = h x" by auto
  from Cons obtain ts where ts: "those (map f xs) = Some ts"
    "sum_list (map g ts) = sum_list (map h xs)" by auto
  have "those (map f (x # xs)) = Some (t # ts)"
    by (simp add: t ts)
  moreover have "sum_list (map g (t # ts)) = sum_list (map h (x # xs))"
    by (simp add: t ts)
  ultimately show ?case by blast
qed

lemma mset_as_sum_list: "mset xs = sum_list (map (\<lambda>x. {#x#}) xs)"
  by (induction xs) simp_all

lemma sum_list_add_mset:
  fixes F :: "'a \<Rightarrow> 'a multiset"
  shows "sum_list (map (\<lambda>x. add_mset x (F x)) xs) = mset xs + sum_list (map F xs)"
  by (induction xs) simp_all

lemma sum_list_sum_swap:
  fixes F :: "'a \<Rightarrow> nat \<Rightarrow> 'c multiset"
  shows "sum_list (map (\<lambda>x. \<Sum>j<d. F x j) xs) = (\<Sum>j<d. sum_list (map (\<lambda>x. F x j) xs))"
  by (induction xs) (simp_all add: sum.distrib)

lemma mset_flatten_forest:
  "mset (concat (map flatten ts)) = sum_list (map (\<lambda>t. mset (flatten t)) ts)"
  by (simp add: mset_concat comp_def)

lemma generation_children_sum:
  "sum_list (map (\<lambda>x. mset (generation cats j (childrenOf cats x))) xs)
     = mset (generation cats (Suc j) xs)"
  by (simp add: generation_concat mset_concat comp_def)

lemma grow_generations:
  assumes "generation cats d xs = []"
  shows "\<exists>ts. those (map (grow d cats) xs) = Some ts
           \<and> mset (concat (map flatten ts)) = (\<Sum>j<d. mset (generation cats j xs))"
  using assms
proof (induction d arbitrary: xs)
  case 0
  then show ?case by simp
next
  case (Suc d)
  have each: "\<exists>t. grow (Suc d) cats x = Some t
      \<and> mset (flatten t) = {#x#} + (\<Sum>j<d. mset (generation cats j (childrenOf cats x)))"
    if x: "x \<in> set xs" for x
  proof -
    from Suc.prems have "concat (map (generation cats d) (map (childrenOf cats) xs)) = []"
      by (simp add: generation_concat)
    with x have "generation cats d (childrenOf cats x) = []"
      by auto
    from Suc.IH [OF this] obtain ts where
      ts: "those (map (grow d cats) (childrenOf cats x)) = Some ts"
        "mset (concat (map flatten ts)) = (\<Sum>j<d. mset (generation cats j (childrenOf cats x)))"
      by blast
    have "grow (Suc d) cats x = Some (Node x ts)"
      by (simp add: ts(1))
    moreover have "mset (flatten (Node x ts))
        = {#x#} + (\<Sum>j<d. mset (generation cats j (childrenOf cats x)))"
      using ts(2) by simp
    ultimately show ?thesis by blast
  qed
  then have "\<forall>x\<in>set xs. \<exists>t. grow (Suc d) cats x = Some t
      \<and> mset (flatten t) = {#x#} + (\<Sum>j<d. mset (generation cats j (childrenOf cats x)))"
    by blast
  from those_map_sum [OF this] obtain ts where
    ts: "those (map (grow (Suc d) cats) xs) = Some ts"
      "sum_list (map (\<lambda>t. mset (flatten t)) ts)
        = sum_list (map (\<lambda>x. {#x#} + (\<Sum>j<d. mset (generation cats j (childrenOf cats x)))) xs)"
    by blast
  have "sum_list (map (\<lambda>x. {#x#} + (\<Sum>j<d. mset (generation cats j (childrenOf cats x)))) xs)
      = mset xs + sum_list (map (\<lambda>x. \<Sum>j<d. mset (generation cats j (childrenOf cats x))) xs)"
    by (simp add: sum_list_add_mset)
  also have "\<dots> = mset xs + (\<Sum>j<d. mset (generation cats (Suc j) xs))"
    unfolding sum_list_sum_swap generation_children_sum ..
  also have "\<dots> = (\<Sum>j<Suc d. mset (generation cats j xs))"
  proof -
    have "mset xs = mset (generation cats 0 xs)" by simp
    then show ?thesis
      by (simp add: sum.lessThan_Suc_shift del: generation.simps sum.lessThan_Suc)
  qed
  finally have "mset (concat (map flatten ts)) = (\<Sum>j<Suc d. mset (generation cats j xs))"
    using ts(2) by (simp only: mset_flatten_forest)
  with ts(1) show ?case by blast
qed

subsection \<open>Levels\<close>

lemma mset_filter_disjoint:
  "\<forall>d. \<not> (A d \<and> B d) \<Longrightarrow>
     mset (filter A cs) + mset (filter B cs) = mset (filter (\<lambda>d. A d \<or> B d) cs)"
  by (induction cs) auto

lemma children_of_distinct:
  assumes "distinct (map id_cat xs)"
  shows "mset (concat (map (childrenOf cats) xs))
           = mset (filter (\<lambda>d. attached cats d \<and> (\<exists>p\<in>set xs. parent_id d = Some (id_cat p))) cats)"
  using assms
proof (induction xs)
  case Nil
  then show ?case by simp
next
  case (Cons p xs)
  let ?A = "\<lambda>d. attached cats d \<and> parent_id d = Some (id_cat p)"
  let ?B = "\<lambda>d. attached cats d \<and> (\<exists>q\<in>set xs. parent_id d = Some (id_cat q))"
  from Cons.prems have fresh: "id_cat p \<notin> id_cat ` set xs" and d: "distinct (map id_cat xs)"
    by simp_all
  have disj: "\<forall>d. \<not> (?A d \<and> ?B d)"
  proof (intro allI notI)
    fix d assume "?A d \<and> ?B d"
    then obtain q where "q \<in> set xs" and "parent_id d = Some (id_cat q)"
      and "parent_id d = Some (id_cat p)"
      by blast
    then have "id_cat p \<in> id_cat ` set xs" by auto
    with fresh show False by simp
  qed
  have "mset (concat (map (childrenOf cats) (p # xs)))
      = mset (childrenOf cats p) + mset (concat (map (childrenOf cats) xs))"
    by simp
  also have "\<dots> = mset (filter ?A cats) + mset (filter ?B cats)"
    unfolding Cons.IH [OF d] by (simp only: childrenOf_def)
  also have "\<dots> = mset (filter (\<lambda>d. ?A d \<or> ?B d) cats)"
    by (rule mset_filter_disjoint [OF disj])
  also have "(\<lambda>d. ?A d \<or> ?B d)
      = (\<lambda>d. attached cats d \<and> (\<exists>q\<in>set (p # xs). parent_id d = Some (id_cat q)))"
    by auto
  finally show ?case .
qed

lemma mset_concat_map_sum:
  "mset (concat (map f xs)) = sum_mset (image_mset (\<lambda>x. mset (f x)) (mset xs))"
  by (induction xs) simp_all

lemma mset_concat_map_cong:
  "mset xs = mset ys \<Longrightarrow> mset (concat (map f xs)) = mset (concat (map f ys))"
  by (simp add: mset_concat_map_sum)

lemma generation_levels:
  assumes "distinct (map id_cat cats)"
  shows "mset (generation cats j (rootsOf cats)) = mset (filter (at_level cats j) cats)"
proof (induction j)
  case 0
  show ?case by (simp add: rootsOf_def)
next
  case (Suc j)
  let ?lv = "filter (at_level cats j) cats"
  have d: "distinct (map id_cat ?lv)"
    using assms by (rule distinct_map_filter)
  have "mset (generation cats (Suc j) (rootsOf cats))
      = mset (concat (map (childrenOf cats) (generation cats j (rootsOf cats))))"
    by (simp only: generation_back)
  also have "\<dots> = mset (concat (map (childrenOf cats) ?lv))"
    using Suc by (rule mset_concat_map_cong)
  also have "\<dots> = mset (filter (\<lambda>d. attached cats d
      \<and> (\<exists>p\<in>set ?lv. parent_id d = Some (id_cat p))) cats)"
    using d by (rule children_of_distinct)
  also have "(\<lambda>d. attached cats d \<and> (\<exists>p\<in>set ?lv. parent_id d = Some (id_cat p)))
      = at_level cats (Suc j)"
    by (intro ext) (auto simp: list_ex_iff)
  finally show ?case .
qed

lemma at_level_parent:
  assumes "at_level cats (Suc j) c"
  obtains p where "p \<in> set cats" and "parent_id c = Some (id_cat p)" and "at_level cats j p"
  using assms by (auto simp: list_ex_iff)

lemma at_level_unique:
  assumes d: "distinct (map id_cat cats)"
  shows "at_level cats i c \<Longrightarrow> at_level cats j c \<Longrightarrow> i = j"
proof (induction i arbitrary: j c)
  case 0
  then show ?case by (cases j) simp_all
next
  case (Suc i)
  note ih = Suc.IH and li = Suc.prems(1) and lj = Suc.prems(2)
  show ?case
  proof (cases j)
    case 0
    with li lj show ?thesis by simp
  next
    case j: (Suc j')
    from li obtain p where p: "p \<in> set cats" "parent_id c = Some (id_cat p)"
      "at_level cats i p"
      by (rule at_level_parent)
    from lj j have "at_level cats (Suc j') c" by simp
    then obtain q where q: "q \<in> set cats" "parent_id c = Some (id_cat q)"
      "at_level cats j' q"
      by (rule at_level_parent)
    from d have "inj_on id_cat (set cats)"
      by (simp add: distinct_map)
    moreover from p(2) q(2) have "id_cat p = id_cat q" by simp
    ultimately have "p = q"
      using p(1) q(1) by (rule inj_onD)
    with p(3) q(3) have "i = j'" by (auto dest: ih)
    with j show ?thesis by simp
  qed
qed

lemma parent_edge:
  "c \<in> set cats \<Longrightarrow> parent_id c = Some p \<Longrightarrow> (id_cat c, p) \<in> parent_edges cats"
  by (force simp: parent_edges_def)

lemma at_level_exists:
  assumes a: "acyclic (parent_edges cats)" and c: "c \<in> set cats"
  shows "\<exists>j. at_level cats j c"
proof -
  have "finite (parent_edges cats)"
    unfolding parent_edges_def by (rule finite_set)
  then have w: "wf ((parent_edges cats)\<inverse>)"
    using a by (rule finite_acyclic_wf_converse)
  have "\<forall>c\<in>set cats. id_cat c = k \<longrightarrow> (\<exists>j. at_level cats j c)" for k
    using w
  proof (induction k rule: wf_induct_rule)
    case (less k)
    show ?case
    proof (intro ballI impI)
      fix c assume c: "c \<in> set cats" and k: "id_cat c = k"
      show "\<exists>j. at_level cats j c"
      proof (cases "attached cats c")
        case False
        then have "at_level cats 0 c" by simp
        then show ?thesis by blast
      next
        case True
        then obtain p where p: "parent_id c = Some p" "p \<in> id_cat ` set cats"
          by (auto simp: attached_def split: option.splits)
        then obtain pc where pc: "pc \<in> set cats" "id_cat pc = p" by auto
        from c p(1) k have "(k, p) \<in> parent_edges cats"
          using parent_edge by blast
        then have "(p, k) \<in> (parent_edges cats)\<inverse>" by simp
        from less [OF this] pc obtain j where "at_level cats j pc" by blast
        with True p(1) pc have "at_level cats (Suc j) c"
          by (auto simp: list_ex_iff)
        then show ?thesis by blast
      qed
    qed
  qed
  with c show ?thesis by blast
qed

lemma at_level_below:
  "at_level cats j c \<Longrightarrow> c \<in> set cats \<Longrightarrow> i \<le> j \<Longrightarrow> \<exists>a\<in>set cats. at_level cats i a"
proof (induction j arbitrary: c)
  case 0
  then show ?case by auto
next
  case (Suc j)
  show ?case
  proof (cases "i = Suc j")
    case True
    with Suc.prems show ?thesis by blast
  next
    case False
    with Suc.prems have i: "i \<le> j" by simp
    from Suc.prems(1) obtain p where "p \<in> set cats" "at_level cats j p"
      by (rule at_level_parent)
    then show ?thesis using Suc.IH i by blast
  qed
qed

lemma at_level_bound:
  assumes d: "distinct (map id_cat cats)" and l: "at_level cats j c" and c: "c \<in> set cats"
  shows "j < length cats"
proof -
  have "\<forall>i\<in>{..j}. \<exists>a. a \<in> set cats \<and> at_level cats i a"
    using at_level_below [OF l c] by auto
  then obtain f where f: "\<forall>i\<in>{..j}. f i \<in> set cats \<and> at_level cats i (f i)"
    by (rule bchoice [THEN exE])
  have "inj_on f {..j}"
  proof (rule inj_onI)
    fix x y assume x: "x \<in> {..j}" and y: "y \<in> {..j}" and e: "f x = f y"
    from f x have 1: "at_level cats x (f x)" by blast
    from f y have "at_level cats y (f y)" by blast
    with e have 2: "at_level cats y (f x)" by simp
    from 1 2 show "x = y" by (rule at_level_unique [OF d])
  qed
  moreover have "f ` {..j} \<subseteq> set cats" using f by auto
  ultimately have "card {..j} \<le> card (set cats)"
    by (intro card_inj_on_le) auto
  also have "\<dots> \<le> length cats" by (rule card_length)
  finally show ?thesis by simp
qed

lemma levels_partition:
  fixes n :: nat
  assumes "\<forall>x\<in>set xs. \<exists>j0<n. \<forall>j<n. P j x \<longleftrightarrow> j = j0"
  shows "(\<Sum>j<n. mset (filter (P j) xs)) = mset xs"
  using assms
proof (induction xs)
  case Nil
  then show ?case by simp
next
  case (Cons x xs)
  then obtain j0 where j0: "j0 < n" "\<forall>j<n. P j x \<longleftrightarrow> j = j0" by auto
  have "(\<Sum>j<n. mset (filter (P j) (x # xs)))
      = (\<Sum>j<n. (if P j x then {#x#} else {#}) + mset (filter (P j) xs))"
    by (rule sum.cong) auto
  also have "\<dots> = (\<Sum>j<n. if P j x then {#x#} else {#}) + (\<Sum>j<n. mset (filter (P j) xs))"
    by (rule sum.distrib)
  also have "(\<Sum>j<n. if P j x then {#x#} else {#}) = (\<Sum>j<n. if j = j0 then {#x#} else {#})"
    using j0(2) by (intro sum.cong) auto
  also have "\<dots> = {#x#}"
    using j0(1) by simp
  also have "(\<Sum>j<n. mset (filter (P j) xs)) = mset xs"
    using Cons by simp
  finally show ?case by simp
qed

subsection \<open>The forest holds every category once\<close>

lemma forest_complete:
  assumes d: "distinct (map id_cat cats)" and a: "acyclic (parent_edges cats)"
  shows "\<exists>ts. forest (length cats) (buildCategoryTree cats) = Some ts
           \<and> mset (concat (map flatten ts)) = mset cats"
proof -
  let ?n = "length cats"
  have part: "\<forall>x\<in>set cats. \<exists>j0<?n. \<forall>j<?n. at_level cats j x \<longleftrightarrow> j = j0"
  proof
    fix x assume x: "x \<in> set cats"
    from at_level_exists [OF a x] obtain j0 where j0: "at_level cats j0 x" by blast
    have "j0 < ?n" using d j0 x by (rule at_level_bound)
    moreover have "\<forall>j<?n. at_level cats j x \<longleftrightarrow> j = j0"
      using j0 at_level_unique [OF d] by blast
    ultimately show "\<exists>j0<?n. \<forall>j<?n. at_level cats j x \<longleftrightarrow> j = j0" by blast
  qed
  have "\<forall>x\<in>set cats. \<not> at_level cats ?n x"
    using at_level_bound [OF d] by blast
  then have "filter (at_level cats ?n) cats = []"
    by (simp add: filter_empty_conv)
  then have "mset (generation cats ?n (rootsOf cats)) = {#}"
    unfolding generation_levels [OF d] by simp
  then have "generation cats ?n (rootsOf cats) = []"
    by simp
  from grow_generations [OF this] obtain ts where
    ts: "those (map (grow ?n cats) (rootsOf cats)) = Some ts"
      "mset (concat (map flatten ts)) = (\<Sum>j<?n. mset (generation cats j (rootsOf cats)))"
    by blast
  have "(\<Sum>j<?n. mset (generation cats j (rootsOf cats)))
      = (\<Sum>j<?n. mset (filter (at_level cats j) cats))"
    by (simp only: generation_levels [OF d])
  also have "\<dots> = mset cats"
    using part by (rule levels_partition)
  finally have "mset (concat (map flatten ts)) = mset cats"
    using ts(2) by simp
  with ts(1) show ?thesis
    unfolding forest_grow [OF d] by blast
qed

lemma build_children:
  assumes "distinct (map id_cat cats)" and "p \<in> set cats"
  shows "map_of (snd (buildCategoryTree cats)) (id_cat p)
           = Some \<lparr>node_category = p, children = map id_cat (childrenOf cats p)\<rparr>"
  unfolding buildCategoryTree_distinct [OF assms(1)] snd_conv
  using assms by (rule map_of_entries)

text \<open>
  Where no id is the empty string, the test \<open>category.parent_id && map.has(...)\<close> is the
  specification's "matches the id of a category in the input": a \<open>parent_id\<close> that is the
  empty string matches no id.
\<close>

lemma attached_matchesInput:
  assumes "\<forall>c\<in>set cats. id_cat c \<noteq> []"
  shows "attached cats c = matchesInput cats c"
proof (cases "parent_id c")
  case None
  then show ?thesis by (simp add: attached_def matchesInput_def)
next
  case (Some p)
  have "p \<in> id_cat ` set cats \<Longrightarrow> p \<noteq> []"
    using assms by auto
  with Some show ?thesis
    by (auto simp: attached_def matchesInput_def)
qed

lemma rootsOf_matchesInput:
  assumes "\<forall>c\<in>set cats. id_cat c \<noteq> []"
  shows "rootsOf cats = filter (\<lambda>c. \<not> matchesInput cats c) cats"
  unfolding rootsOf_def by (simp add: attached_matchesInput [OF assms])

lemma childrenOf_withParent:
  assumes n: "\<forall>c\<in>set cats. id_cat c \<noteq> []" and p: "p \<in> set cats"
  shows "childrenOf cats p = withParent cats p"
proof -
  have "attached cats c" if "parent_id c = Some (id_cat p)" for c
  proof -
    from n p have "id_cat p \<noteq> []" by blast
    moreover from p have "id_cat p \<in> id_cat ` set cats" by (rule imageI)
    ultimately show ?thesis using that by (simp add: attached_def)
  qed
  then have "(attached cats c \<and> parent_id c = Some (id_cat p)) = (parent_id c = Some (id_cat p))"
    for c by blast
  then show ?thesis
    unfolding childrenOf_def withParent_def by simp
qed

text \<open>
  The hypothesis on the ids is needed. Below, the \<open>parent_id\<close> of the second category is the
  id of the first, the empty string; the empty string is falsy, so the second category is a
  root and the first has no children.
\<close>

lemma buildCategoryTree_empty_id:
  "distinct (map id_cat [cat_blank, cat_orphan])
   \<and> parent_id cat_orphan = Some (id_cat cat_blank)
   \<and> buildCategoryTree [cat_blank, cat_orphan] =
       ([[], ''c-orphan''],
        [([], \<lparr>node_category = cat_blank, children = []\<rparr>),
         (''c-orphan'', \<lparr>node_category = cat_orphan, children = []\<rparr>)])"
  by (simp add: buildCategoryTree_def first_pass_def attach_def map_has_def cat_blank_def
      cat_orphan_def)

text \<open>
  C2: \<open>buildCategoryTree\<close> is called on the rows of the \<open>categories\<close> table
  (src/pages/Categories.tsx, \<open>fetchCategories\<close>), whose \<open>id\<close> is a UUID primary key: the
  ids are distinct and none is the empty string. For every such input, the roots of the returned
  forest are exactly the categories, in input order, whose \<open>parent_id\<close> is null or does not
  match the id of any category in the input; there is one object per category, and the children
  of each are exactly the categories, in input order, whose \<open>parent_id\<close> is its id; and when
  the \<open>parent_id\<close> references are acyclic, the returned forest is a finite forest, of depth at
  most the number of categories, in which every input category appears exactly once.
\<close>

theorem buildCategoryTree_forest:
  assumes "distinct (map id_cat cats)" and "\<forall>c\<in>set cats. id_cat c \<noteq> []"
  shows "fst (buildCategoryTree cats) = map id_cat (filter (\<lambda>c. \<not> matchesInput cats c) cats)
         \<and> map fst (snd (buildCategoryTree cats)) = map id_cat cats
         \<and> (\<forall>p\<in>set cats.
               map_of (snd (buildCategoryTree cats)) (id_cat p)
                 = Some \<lparr>node_category = p, children = map id_cat (withParent cats p)\<rparr>)
         \<and> (acyclic (parent_edges cats) \<longrightarrow>
               (\<exists>ts. forest (length cats) (buildCategoryTree cats) = Some ts
                  \<and> mset (concat (map flatten ts)) = mset cats))"
proof -
  have 1: "fst (buildCategoryTree cats) = map id_cat (filter (\<lambda>c. \<not> matchesInput cats c) cats)"
    unfolding rootsOf_matchesInput [OF assms(2), symmetric]
    by (simp add: buildCategoryTree_distinct [OF assms(1)])
  have 2: "map fst (snd (buildCategoryTree cats)) = map id_cat cats"
    by (simp add: buildCategoryTree_distinct [OF assms(1)] comp_def)
  have 3: "\<forall>p\<in>set cats.
      map_of (snd (buildCategoryTree cats)) (id_cat p)
        = Some \<lparr>node_category = p, children = map id_cat (withParent cats p)\<rparr>"
  proof
    fix p
    assume p: "p \<in> set cats"
    show "map_of (snd (buildCategoryTree cats)) (id_cat p)
        = Some \<lparr>node_category = p, children = map id_cat (withParent cats p)\<rparr>"
      unfolding childrenOf_withParent [OF assms(2) p, symmetric]
      using assms(1) p by (rule build_children)
  qed
  have 4: "acyclic (parent_edges cats) \<longrightarrow>
      (\<exists>ts. forest (length cats) (buildCategoryTree cats) = Some ts
         \<and> mset (concat (map flatten ts)) = mset cats)"
    using forest_complete [OF assms(1)] by blast
  from 1 2 3 4 show ?thesis by (intro conjI)
qed

lemma shelf_acyclic: "acyclic (parent_edges [cat_crime, cat_books, cat_novels])"
  by (simp add: parent_edges_def cat_books_def cat_novels_def cat_crime_def acyclic_no_edges
      rtrancl_insert)

theorem buildCategoryTree_forest_witness:
  "distinct (map id_cat [cat_crime, cat_books, cat_novels])
   \<and> id_cat cat_crime \<noteq> [] \<and> id_cat cat_books \<noteq> [] \<and> id_cat cat_novels \<noteq> []
   \<and> acyclic (parent_edges [cat_crime, cat_books, cat_novels])
   \<and> fst (buildCategoryTree [cat_crime, cat_books, cat_novels]) = [''c-books'']
   \<and> map_of (snd (buildCategoryTree [cat_crime, cat_books, cat_novels])) ''c-novels''
       = Some \<lparr>node_category = cat_novels, children = [''c-crime'']\<rparr>
   \<and> forest (length [cat_crime, cat_books, cat_novels])
         (buildCategoryTree [cat_crime, cat_books, cat_novels])
       = Some [Node cat_books [Node cat_novels [Node cat_crime []]]]
   \<and> mset (concat (map flatten [Node cat_books [Node cat_novels [Node cat_crime []]]]))
       = mset [cat_crime, cat_books, cat_novels]"
proof -
  have d: "distinct (map id_cat [cat_crime, cat_books, cat_novels])"
    by (simp add: cat_books_def cat_novels_def cat_crime_def)
  have n: "\<forall>c\<in>set [cat_crime, cat_books, cat_novels]. id_cat c \<noteq> []"
    by (simp add: cat_books_def cat_novels_def cat_crime_def)
  note t = buildCategoryTree_forest [OF d n]
  have r: "map id_cat (filter (\<lambda>c. \<not> matchesInput [cat_crime, cat_books, cat_novels] c)
        [cat_crime, cat_books, cat_novels]) = [''c-books'']"
    by (simp add: matchesInput_def cat_books_def cat_novels_def cat_crime_def)
  have w: "map id_cat (withParent [cat_crime, cat_books, cat_novels] cat_novels) = [''c-crime'']"
    by (simp add: withParent_def cat_books_def cat_novels_def cat_crime_def)
  have i: "id_cat cat_novels = ''c-novels''"
    by (simp add: cat_novels_def)
  have f: "forest (length [cat_crime, cat_books, cat_novels])
         (buildCategoryTree [cat_crime, cat_books, cat_novels])
       = Some [Node cat_books [Node cat_novels [Node cat_crime []]]]"
    by (simp add: forest_def buildCategoryTree_def first_pass_def attach_def map_has_def
        push_child_def cat_books_def cat_novels_def cat_crime_def)
  from t shelf_acyclic obtain ts where
    ts: "forest (length [cat_crime, cat_books, cat_novels])
          (buildCategoryTree [cat_crime, cat_books, cat_novels]) = Some ts"
      "mset (concat (map flatten ts)) = mset [cat_crime, cat_books, cat_novels]"
    by blast
  from ts(1) f have "ts = [Node cat_books [Node cat_novels [Node cat_crime []]]]" by simp
  with ts(2) have m: "mset (concat (map flatten [Node cat_books [Node cat_novels [Node cat_crime []]]]))
       = mset [cat_crime, cat_books, cat_novels]"
    by simp
  from t r have 1: "fst (buildCategoryTree [cat_crime, cat_books, cat_novels]) = [''c-books'']"
    by simp
  from t have "map_of (snd (buildCategoryTree [cat_crime, cat_books, cat_novels])) (id_cat cat_novels)
       = Some \<lparr>node_category = cat_novels,
               children = map id_cat (withParent [cat_crime, cat_books, cat_novels] cat_novels)\<rparr>"
    by simp
  then have 2: "map_of (snd (buildCategoryTree [cat_crime, cat_books, cat_novels])) ''c-novels''
       = Some \<lparr>node_category = cat_novels, children = [''c-crime'']\<rparr>"
    unfolding w i .
  have e: "id_cat cat_crime \<noteq> []" "id_cat cat_books \<noteq> []" "id_cat cat_novels \<noteq> []"
    by (simp_all add: cat_books_def cat_novels_def cat_crime_def)
  from d e shelf_acyclic 1 2 f m show ?thesis by (intro conjI)
qed

end
